theory Spec2Isabelle
  imports Complex_Main "HOL-Library.AList" "HOL-Library.Option_ord"
begin

section \<open>Configuration (config.py)\<close>

definition EMBEDDING_MODEL :: string where
  "EMBEDDING_MODEL = ''sentence-transformers/all-mpnet-base-v2''"

definition MIN_CLUSTER_SIZE :: nat where
  "MIN_CLUSTER_SIZE = 3"

definition MIN_SAMPLES :: nat where
  "MIN_SAMPLES = 2"

section \<open>Text normalizer (ml/cluster.py, preprocess\_text)\<close>

text \<open>
  A Python string is a sequence of code points. The model covers the code points
  U+0000 to U+00FF, one \<open>char\<close> each; the character classes below are the ones
  Python's \<open>re\<close> module and \<open>str.lower\<close> use on that range.

  \<open>is_space\<close> is the class \<open>\s\<close>: tab, line feed, vertical tab, form feed,
  carriage return, the separators U+001C to U+001F, the space, U+0085 and U+00A0.
\<close>

definition is_space :: "char \<Rightarrow> bool" where
  "is_space c = (let n = (of_char c :: nat) in
     (9 \<le> n \<and> n \<le> 13) \<or> (28 \<le> n \<and> n \<le> 32) \<or> n = 133 \<or> n = 160)"

text \<open>
  \<open>is_alnum\<close> is \<open>str.isalnum\<close> on one character: the ASCII digits and letters,
  the Latin-1 letters, and the Latin-1 characters with a numeric value (superscript
  digits and vulgar fractions).
\<close>

definition is_alnum :: "char \<Rightarrow> bool" where
  "is_alnum c = (let n = (of_char c :: nat) in
     (48 \<le> n \<and> n \<le> 57) \<or> (65 \<le> n \<and> n \<le> 90) \<or> (97 \<le> n \<and> n \<le> 122) \<or>
     n = 170 \<or> n = 178 \<or> n = 179 \<or> n = 181 \<or> n = 185 \<or> n = 186 \<or>
     (188 \<le> n \<and> n \<le> 190) \<or> (192 \<le> n \<and> n \<le> 214) \<or> (216 \<le> n \<and> n \<le> 246) \<or>
     248 \<le> n)"

text \<open>The class \<open>\w\<close>: an alphanumeric character or the underscore.\<close>

definition is_word :: "char \<Rightarrow> bool" where
  "is_word c = (is_alnum c \<or> c = CHR ''_'')"

definition lower_char :: "char \<Rightarrow> char" where
  "lower_char c = (let n = (of_char c :: nat) in
     if (65 \<le> n \<and> n \<le> 90) \<or> (192 \<le> n \<and> n \<le> 214) \<or> (216 \<le> n \<and> n \<le> 222)
     then char_of (n + 32) else c)"

definition lower :: "string \<Rightarrow> string" where
  "lower s = map lower_char s"

text \<open>
  \<open>re.sub(r'<[^>]+>', '', text)\<close>: scanning from the left, a \<open><\<close> followed by at
  least one character other than \<open>>\<close> and then a \<open>>\<close> is removed with everything
  up to that \<open>>\<close>; the scan goes on after it.
\<close>

function strip_tags :: "string \<Rightarrow> string" where
  "strip_tags [] = []"
| "strip_tags (c # cs) =
     (if c = CHR ''<'' \<and> takeWhile (\<lambda>d. d \<noteq> CHR ''>'') cs \<noteq> []
          \<and> dropWhile (\<lambda>d. d \<noteq> CHR ''>'') cs \<noteq> []
      then strip_tags (tl (dropWhile (\<lambda>d. d \<noteq> CHR ''>'') cs))
      else c # strip_tags cs)"
  by pat_completeness auto
termination
proof (relation "measure length")
  fix c :: char and cs :: string
  have "length (tl (dropWhile (\<lambda>d. d \<noteq> CHR ''>'') cs)) \<le> length cs"
    using length_dropWhile_le [of "\<lambda>d. d \<noteq> CHR ''>''" cs] by simp
  then show "(tl (dropWhile (\<lambda>d. d \<noteq> CHR ''>'') cs), c # cs) \<in> measure length"
    by simp
qed simp_all

text \<open>\<open>re.sub(r'\s+', ' ', text)\<close>: every maximal run of whitespace becomes one space.\<close>

function collapse_ws :: "string \<Rightarrow> string" where
  "collapse_ws [] = []"
| "collapse_ws (c # cs) =
     (if is_space c then CHR '' '' # collapse_ws (dropWhile is_space cs)
      else c # collapse_ws cs)"
  by pat_completeness auto
termination
proof (relation "measure length")
  fix c :: char and cs :: string
  show "(dropWhile is_space cs, c # cs) \<in> measure length"
    using length_dropWhile_le [of is_space cs] by simp
qed simp_all

definition strip :: "string \<Rightarrow> string" where
  "strip s = rev (dropWhile is_space (rev (dropWhile is_space s)))"

text \<open>
  \<open>re.sub(r'[^\w\s\.\,\!\?\-]', '', text)\<close> deletes every character outside the
  class; \<open>keep_char\<close> is the class.
\<close>

definition keep_char :: "char \<Rightarrow> bool" where
  "keep_char c = (is_word c \<or> is_space c \<or> c = CHR ''.'' \<or> c = CHR '','' \<or> c = CHR ''!''
      \<or> c = CHR ''?'' \<or> c = CHR ''-'')"

definition preprocess_text :: "string \<Rightarrow> string" where
  "preprocess_text text =
     (if text = [] then []
      else lower (filter keep_char (strip (collapse_ws (strip_tags text)))))"

text \<open>
  The whitelist in the words of the specification (and of the comment above the last
  substitution): alphanumerics, spaces, and the punctuation \<open>. , ! ? -\<close>.
\<close>

definition spec_whitelist :: "char \<Rightarrow> bool" where
  "spec_whitelist c = (is_alnum c \<or> c = CHR '' '' \<or> c = CHR ''.'' \<or> c = CHR '','' \<or> c = CHR ''!''
      \<or> c = CHR ''?'' \<or> c = CHR ''-'')"

section \<open>The store (database.py)\<close>

record article =
  art_id :: int
  art_title :: string
  art_text :: string
  art_published_at :: "int option"

record 'v embedding =
  emb_article_id :: int
  emb_vector :: 'v
  emb_model_name :: string

text \<open>
  The tables the clustering engine reads and writes. A \<open>clusters\<close> row is
  \<open>(cluster_id, label)\<close>, a \<open>cluster_members\<close> row is \<open>(cluster_id, article_id)\<close>.
\<close>

record 'v database =
  articles :: "article list"
  embeddings :: "'v embedding list"
  clusters :: "(int \<times> string) list"
  cluster_members :: "(int \<times> int) list"

datatype error = OperationalError | IntegrityError | IndexError | ValueError

text \<open>The SQL statements of \<open>insert_embedding\<close> and \<open>update_clusters\<close>, and the commit.\<close>

datatype 'v stmt =
    DeleteClusterMembers
  | DeleteClusters
  | InsertCluster int string
  | InsertClusterMember int int
  | InsertEmbedding int 'v string
  | Commit

text \<open>
  What a statement does to the tables when the store works: the primary key of
  \<open>clusters\<close> and the uniqueness constraint of \<open>cluster_members\<close> raise
  \<open>IntegrityError\<close>. The \<open>embeddings\<close> table has no uniqueness constraint, and
  SQLite does not enforce the foreign keys (the pragma is never switched on).
\<close>

fun apply_stmt :: "'v stmt \<Rightarrow> 'v database \<Rightarrow> error + 'v database" where
  "apply_stmt DeleteClusterMembers db = Inr (db\<lparr>cluster_members := []\<rparr>)"
| "apply_stmt DeleteClusters db = Inr (db\<lparr>clusters := []\<rparr>)"
| "apply_stmt (InsertCluster c l) db =
     (if c \<in> fst ` set (clusters db) then Inl IntegrityError
      else Inr (db\<lparr>clusters := clusters db @ [(c, l)]\<rparr>))"
| "apply_stmt (InsertClusterMember c a) db =
     (if (c, a) \<in> set (cluster_members db) then Inl IntegrityError
      else Inr (db\<lparr>cluster_members := cluster_members db @ [(c, a)]\<rparr>))"
| "apply_stmt (InsertEmbedding a v m) db =
     Inr (db\<lparr>embeddings := embeddings db @
        [\<lparr>emb_article_id = a, emb_vector = v, emb_model_name = m\<rparr>]\<rparr>)"
| "apply_stmt Commit db = Inr db"

text \<open>
  The store can fail at any statement: \<open>flt db st = Some e\<close> says that executing
  \<open>st\<close> on the (uncommitted) state \<open>db\<close> raises \<open>e\<close>. Every theorem below holds for
  every such \<open>flt\<close>.
\<close>

type_synonym 'v faults = "'v database \<Rightarrow> 'v stmt \<Rightarrow> error option"

definition execute :: "'v faults \<Rightarrow> 'v stmt \<Rightarrow> 'v database \<Rightarrow> error + 'v database" where
  "execute flt st db = (case flt db st of Some e \<Rightarrow> Inl e | None \<Rightarrow> apply_stmt st db)"

text \<open>
  \<open>with self.get_connection() as conn: ...\<close>: the statements of the body run in one
  transaction. Leaving the block normally commits; leaving it by an exception rolls the
  transaction back and lets the exception through.
\<close>

definition with_connection ::
  "'v faults \<Rightarrow> 'v database \<Rightarrow> ('v database \<Rightarrow> error + 'v database) \<Rightarrow> (error + unit) \<times> 'v database" where
  "with_connection flt db body =
     (case body db of
        Inl e \<Rightarrow> (Inl e, db)
      | Inr db' \<Rightarrow>
          (case execute flt Commit db' of
             Inl e \<Rightarrow> (Inl e, db)
           | Inr db'' \<Rightarrow> (Inr (), db'')))"

definition insert_embedding ::
  "'v faults \<Rightarrow> 'v database \<Rightarrow> int \<Rightarrow> 'v \<Rightarrow> string \<Rightarrow> (error + unit) \<times> 'v database" where
  "insert_embedding flt db article_id vector model_name =
     with_connection flt db (execute flt (InsertEmbedding article_id vector model_name))"

text \<open>
  \<open>get_articles_without_embeddings\<close>: the left join keeps an article with no
  embedding row at all, whatever the model name of the rows; \<open>LIMIT\<close> cuts the result.
\<close>

definition has_embedding :: "'v database \<Rightarrow> article \<Rightarrow> bool" where
  "has_embedding db a = (art_id a \<in> emb_article_id ` set (embeddings db))"

definition get_articles_without_embeddings :: "'v database \<Rightarrow> nat \<Rightarrow> article list" where
  "get_articles_without_embeddings db limit =
     take limit (filter (\<lambda>a. \<not> has_embedding db a) (articles db))"

text \<open>
  The dictionaries \<open>get_all_embeddings\<close> builds: they have no \<open>text\<close> key, which is
  \<open>ad_text = None\<close>. The rows come newest first, a missing date last; SQL leaves the
  order of rows with equal dates open, and nothing below depends on it.
\<close>

record 'v article_data =
  ad_article_id :: int
  ad_vector :: 'v
  ad_title :: string
  ad_text :: "string option"
  ad_published_at :: "int option"

definition get_all_embeddings :: "'v database \<Rightarrow> 'v article_data list" where
  "get_all_embeddings db =
     rev (sort_key ad_published_at
       [\<lparr>ad_article_id = emb_article_id e, ad_vector = emb_vector e, ad_title = art_title a,
          ad_text = None, ad_published_at = art_published_at a\<rparr>.
        e \<leftarrow> embeddings db, a \<leftarrow> articles db, art_id a = emb_article_id e])"

text \<open>
  \<open>update_clusters\<close>. A Python dictionary is an association list with distinct keys,
  in insertion order.
\<close>

fun insert_clusters :: "'v faults \<Rightarrow> (int \<times> string) list \<Rightarrow> 'v database \<Rightarrow> error + 'v database" where
  "insert_clusters flt [] db = Inr db"
| "insert_clusters flt ((cluster_id, label) # rest) db =
     (case execute flt (InsertCluster cluster_id label) db of
        Inl e \<Rightarrow> Inl e
      | Inr db' \<Rightarrow> insert_clusters flt rest db')"

fun insert_members :: "'v faults \<Rightarrow> (int \<times> int) list \<Rightarrow> 'v database \<Rightarrow> error + 'v database" where
  "insert_members flt [] db = Inr db"
| "insert_members flt ((article_id, cluster_id) # rest) db =
     (if cluster_id \<ge> 0 then
        (case execute flt (InsertClusterMember cluster_id article_id) db of
           Inl e \<Rightarrow> Inl e
         | Inr db' \<Rightarrow> insert_members flt rest db')
      else insert_members flt rest db)"

definition update_clusters_body ::
  "'v faults \<Rightarrow> (int \<times> int) list \<Rightarrow> (int \<times> string) list \<Rightarrow> 'v database \<Rightarrow> error + 'v database" where
  "update_clusters_body flt cluster_assignments cluster_labels db =
     (case execute flt DeleteClusterMembers db of
        Inl e \<Rightarrow> Inl e
      | Inr db1 \<Rightarrow>
          (case execute flt DeleteClusters db1 of
             Inl e \<Rightarrow> Inl e
           | Inr db2 \<Rightarrow>
               (case insert_clusters flt cluster_labels db2 of
                  Inl e \<Rightarrow> Inl e
                | Inr db3 \<Rightarrow> insert_members flt cluster_assignments db3)))"

definition update_clusters ::
  "'v faults \<Rightarrow> 'v database \<Rightarrow> (int \<times> int) list \<Rightarrow> (int \<times> string) list \<Rightarrow> (error + unit) \<times> 'v database" where
  "update_clusters flt db cluster_assignments cluster_labels =
     with_connection flt db (update_clusters_body flt cluster_assignments cluster_labels)"

section \<open>External components\<close>

text \<open>
  The pretrained models and the library routines the engine calls are parameters:
  \<open>encode\<close> is \<open>SentenceTransformer.encode\<close> on a list of texts;
  \<open>fit_predict\<close> is the standardisation followed by \<open>HDBSCAN.fit_predict\<close>;
  \<open>fit_transform\<close> is \<open>TfidfVectorizer.fit_transform\<close> on the texts of one
  cluster, giving each feature name with the sum of its column (the vectorizer raises
  when no term is left, for instance when no term occurs in two documents);
  \<open>argsort\<close> is numpy's; \<open>str_title\<close> is \<open>str.title\<close>.
\<close>

record 'v externals =
  encode :: "string list \<Rightarrow> 'v list"
  fit_predict :: "'v list \<Rightarrow> int list"
  fit_transform :: "string list \<Rightarrow> error + (string \<times> real) list"
  argsort :: "real list \<Rightarrow> nat list"
  str_title :: "string \<Rightarrow> string"

section \<open>Embedding store (ml/cluster.py)\<close>

definition combined_text :: "article \<Rightarrow> string" where
  "combined_text a = art_title a @ ''. '' @ take 1000 (art_text a)"

text \<open>
  The loop of \<open>generate_embeddings\<close>: the identifiers and the processed texts it
  collects, side by side.
\<close>

definition embedding_texts :: "article list \<Rightarrow> (int \<times> string) list" where
  "embedding_texts arts =
     map (\<lambda>a. (art_id a, preprocess_text (combined_text a)))
       (filter (\<lambda>a. length (preprocess_text (combined_text a)) > 50) arts)"

definition generate_embeddings :: "'v externals \<Rightarrow> article list \<Rightarrow> int list \<times> 'v list" where
  "generate_embeddings ext arts =
     (let article_ids = map fst (embedding_texts arts);
          texts = map snd (embedding_texts arts)
      in if texts = [] then ([], []) else (article_ids, encode ext texts))"

text \<open>
  \<open>store_embeddings\<close> returns the store and the log of the failures (article and
  exception).
\<close>

fun store_embeddings ::
  "'v faults \<Rightarrow> 'v database \<Rightarrow> (int \<times> 'v) list \<Rightarrow> 'v database \<times> (int \<times> error) list" where
  "store_embeddings flt db [] = (db, [])"
| "store_embeddings flt db ((article_id, embedding) # rest) =
     (case insert_embedding flt db article_id embedding EMBEDDING_MODEL of
        (Inl e, db') \<Rightarrow>
          (case store_embeddings flt db' rest of (db'', logged) \<Rightarrow> (db'', (article_id, e) # logged))
      | (Inr u, db') \<Rightarrow> store_embeddings flt db' rest)"

definition generate_embeddings_for_unprocessed ::
  "'v externals \<Rightarrow> 'v faults \<Rightarrow> 'v database \<Rightarrow> nat \<times> 'v database" where
  "generate_embeddings_for_unprocessed ext flt db =
     (let arts = get_articles_without_embeddings db 50 in
      if arts = [] then (0, db)
      else
        (case generate_embeddings ext arts of
           (article_ids, embs) \<Rightarrow>
             if article_ids = [] then (0, db)
             else (length article_ids, fst (store_embeddings flt db (zip article_ids embs)))))"

section \<open>Density clusterer and label generator (ml/cluster.py)\<close>

definition cluster_articles :: "'v externals \<Rightarrow> 'v list \<Rightarrow> int list" where
  "cluster_articles ext embs =
     (if length embs < MIN_CLUSTER_SIZE then replicate (length embs) (- 1)
      else fit_predict ext embs)"

text \<open>\<open>str(cluster_id)\<close>.\<close>

fun digits :: "nat \<Rightarrow> string" where
  "digits n = (if n < 10 then [char_of (48 + n)] else digits (n div 10) @ [char_of (48 + n mod 10)])"

definition str_int :: "int \<Rightarrow> string" where
  "str_int i = (if i < 0 then CHR ''-'' # digits (nat (- i)) else digits (nat i))"

definition fallback_label :: "int \<Rightarrow> string" where
  "fallback_label cluster_id = ''Cluster '' @ str_int cluster_id"

text \<open>
  The first loop of \<open>generate_cluster_labels\<close>: \<open>clusters[label].append(articles[i])\<close>
  for every position \<open>i\<close> with a label that is not noise.
\<close>

definition append_member :: "int \<Rightarrow> 'a \<Rightarrow> (int \<times> 'a list) list \<Rightarrow> (int \<times> 'a list) list" where
  "append_member label a cs =
     AList.update label ((case map_of cs label of None \<Rightarrow> [] | Some ms \<Rightarrow> ms) @ [a]) cs"

fun group_by_cluster ::
  "'a list \<Rightarrow> nat \<Rightarrow> int list \<Rightarrow> (int \<times> 'a list) list \<Rightarrow> error + (int \<times> 'a list) list" where
  "group_by_cluster arts i [] cs = Inr cs"
| "group_by_cluster arts i (label # rest) cs =
     (if label \<ge> 0 then
        (if i < length arts
         then group_by_cluster arts (Suc i) rest (append_member label (arts ! i) cs)
         else Inl IndexError)
      else group_by_cluster arts (Suc i) rest cs)"

definition cluster_texts :: "'v article_data list \<Rightarrow> string list" where
  "cluster_texts members =
     map (\<lambda>a. preprocess_text
            (ad_title a @ '' '' @ take 500 (case ad_text a of None \<Rightarrow> [] | Some t \<Rightarrow> t)))
       members"

text \<open>
  \<open>[feature_names[i] for i in top_indices if tfidf_sums[i] > 0]\<close>; an index out of
  range raises.
\<close>

fun top_terms :: "(string \<times> real) list \<Rightarrow> nat list \<Rightarrow> error + string list" where
  "top_terms feats [] = Inr []"
| "top_terms feats (i # rest) =
     (if i < length feats then
        (case top_terms feats rest of
           Inl e \<Rightarrow> Inl e
         | Inr ts \<Rightarrow> Inr (if snd (feats ! i) > 0 then fst (feats ! i) # ts else ts))
      else Inl IndexError)"

fun join_space :: "string list \<Rightarrow> string" where
  "join_space [] = []"
| "join_space [t] = t"
| "join_space (t # ts) = t @ '' '' @ join_space ts"

definition replace_underscores :: "string \<Rightarrow> string" where
  "replace_underscores s = map (\<lambda>c. if c = CHR ''_'' then CHR '' '' else c) s"

text \<open>The body of the \<open>try\<close> block, for one cluster.\<close>

definition tfidf_label :: "'v externals \<Rightarrow> int \<Rightarrow> string list \<Rightarrow> error + string" where
  "tfidf_label ext cluster_id texts =
     (case fit_transform ext texts of
        Inl e \<Rightarrow> Inl e
      | Inr feats \<Rightarrow>
          (let idx = argsort ext (map snd feats);
               top_indices = rev (drop (length idx - 5) idx)
           in case top_terms feats top_indices of
                Inl e \<Rightarrow> Inl e
              | Inr terms \<Rightarrow>
                  Inr (if terms \<noteq> []
                       then str_title ext (replace_underscores (join_space (take 3 terms)))
                       else fallback_label cluster_id)))"

definition cluster_label :: "'v externals \<Rightarrow> int \<Rightarrow> string list \<Rightarrow> string" where
  "cluster_label ext cluster_id texts =
     (if texts = [] then fallback_label cluster_id
      else (case tfidf_label ext cluster_id texts of
              Inl e \<Rightarrow> fallback_label cluster_id
            | Inr label \<Rightarrow> label))"

fun label_clusters ::
  "'v externals \<Rightarrow> (int \<times> 'v article_data list) list \<Rightarrow> (int \<times> string) list \<Rightarrow> (int \<times> string) list" where
  "label_clusters ext [] d = d"
| "label_clusters ext ((cluster_id, members) # rest) d =
     label_clusters ext rest
       (AList.update cluster_id (cluster_label ext cluster_id (cluster_texts members)) d)"

definition generate_cluster_labels ::
  "'v externals \<Rightarrow> 'v article_data list \<Rightarrow> int list \<Rightarrow> error + (int \<times> string) list" where
  "generate_cluster_labels ext arts cluster_labels =
     (case group_by_cluster arts 0 cluster_labels [] of
        Inl e \<Rightarrow> Inl e
      | Inr cs \<Rightarrow> Inr (label_clusters ext cs []))"

section \<open>The clustering run (ml/cluster.py, run\_clustering)\<close>

text \<open>
  The labels of a clustering are numpy.int64 scalars, and so are the keys of the label
  dictionary and the values of the assignments built from them. In Python such a
  value compares and prints as the integer it holds, but sqlite3 does not bind it as
  an INTEGER: it passes the object's bytes, and the INTEGER PRIMARY KEY of \<open>clusters\<close>
  rejects the row (datatype mismatch, an \<open>IntegrityError\<close>). \<open>numpy_int64_ids flt\<close> is
  the store as a call with such cluster ids meets it: what raises under \<open>flt\<close>
  raises, and every \<open>INSERT INTO clusters\<close> raises. (A membership row with such an id
  would be stored; the run never gets there, since the row of its cluster comes
  first.)
\<close>

definition numpy_int64_ids :: "'v faults \<Rightarrow> 'v faults" where
  "numpy_int64_ids flt db st =
     (case flt db st of
        Some e \<Rightarrow> Some e
      | None \<Rightarrow> (case st of InsertCluster c l \<Rightarrow> Some IntegrityError | _ \<Rightarrow> None))"

fun assign_clusters :: "(int \<times> int) list \<Rightarrow> (int \<times> int) list \<Rightarrow> (int \<times> int) list" where
  "assign_clusters [] asg = asg"
| "assign_clusters ((article_id, label) # rest) asg =
     assign_clusters rest (if label \<ge> 0 then AList.update article_id label asg else asg)"

definition run_clustering ::
  "'v externals \<Rightarrow> 'v faults \<Rightarrow> 'v database \<Rightarrow> (error + nat) \<times> 'v database" where
  "run_clustering ext flt db =
     (let articles_data = get_all_embeddings db in
      if articles_data = [] then (Inr 0, db)
      else
        (let article_ids = map ad_article_id articles_data;
             embs = map ad_vector articles_data
         in if length embs < MIN_CLUSTER_SIZE then (Inr 0, db)
            else
              (let cluster_labels = cluster_articles ext embs in
               case generate_cluster_labels ext articles_data cluster_labels of
                 Inl e \<Rightarrow> (Inl e, db)
               | Inr cluster_labels_dict \<Rightarrow>
                   (case update_clusters (numpy_int64_ids flt) db
                           (assign_clusters (zip article_ids cluster_labels) [])
                           cluster_labels_dict of
                      (Inl e, db') \<Rightarrow> (Inl e, db')
                    | (Inr u, db') \<Rightarrow> (Inr (length cluster_labels_dict), db')))))"

section \<open>Example stores\<close>

text \<open>
  Concrete inputs for the instances below. Vectors are natural numbers here: the
  engine never looks inside a vector.
\<close>

definition demo_ext :: "nat externals" where
  "demo_ext = \<lparr>encode = map length, fit_predict = map (\<lambda>v. 0),
     fit_transform = (\<lambda>ts. Inl ValueError), argsort = (\<lambda>ws. [0..<length ws]),
     str_title = (\<lambda>s. s)\<rparr>"


definition no_faults :: "nat faults" where
  "no_faults = (\<lambda>db st. None)"

text \<open>Two embedded articles, and one cluster left by an earlier run (or by the demo data).\<close>

definition small_db :: "nat database" where
  "small_db = \<lparr>articles =
       [\<lparr>art_id = 1, art_title = ''Senate passes AI bill'', art_text = ''text one'',
          art_published_at = Some 10\<rparr>,
        \<lparr>art_id = 2, art_title = ''AI bill passes Senate'', art_text = ''text two'',
          art_published_at = Some 20\<rparr>],
     embeddings =
       [\<lparr>emb_article_id = 1, emb_vector = 11, emb_model_name = EMBEDDING_MODEL\<rparr>,
        \<lparr>emb_article_id = 2, emb_vector = 12, emb_model_name = EMBEDDING_MODEL\<rparr>],
     clusters = [(0, ''AI Regulation'')],
     cluster_members = [(0, 1), (0, 2)]\<rparr>"

text \<open>A store that fails when the second cluster row is inserted.\<close>

definition fail_second_cluster :: "nat faults" where
  "fail_second_cluster =
     (\<lambda>db st. if st = InsertCluster 1 ''B'' then Some OperationalError else None)"

text \<open>Two articles whose normalized strings have 50 and 51 characters.\<close>

definition article_50 :: article where
  "article_50 = \<lparr>art_id = 7, art_title = replicate 49 (CHR ''a''), art_text = [],
     art_published_at = None\<rparr>"

definition article_51 :: article where
  "article_51 = \<lparr>art_id = 8, art_title = replicate 50 (CHR ''a''), art_text = [],
     art_published_at = None\<rparr>"

text \<open>Three articles without embeddings, and a store that fails on the embedding of article 2.\<close>

definition three_articles_db :: "nat database" where
  "three_articles_db = \<lparr>articles =
       [\<lparr>art_id = 1, art_title = ''one'', art_text = [], art_published_at = None\<rparr>,
        \<lparr>art_id = 2, art_title = ''two'', art_text = [], art_published_at = None\<rparr>,
        \<lparr>art_id = 3, art_title = ''three'', art_text = [], art_published_at = None\<rparr>],
     embeddings = [], clusters = [], cluster_members = []\<rparr>"

definition fail_article_2 :: "nat faults" where
  "fail_article_2 =
     (\<lambda>db st. case st of
        InsertEmbedding a v m \<Rightarrow> if a = 2 then Some OperationalError else None
      | _ \<Rightarrow> None)"


text \<open>Fifty-one articles with enough text and no embedding; and a store of two articles.\<close>

definition long_article :: "nat \<Rightarrow> article" where
  "long_article i = \<lparr>art_id = int i, art_title = replicate 60 (CHR ''a''), art_text = [],
     art_published_at = None\<rparr>"

definition many_articles_db :: "nat database" where
  "many_articles_db = \<lparr>articles = map long_article [1..<52],
     embeddings = [], clusters = [], cluster_members = []\<rparr>"

definition two_articles_db :: "nat database" where
  "two_articles_db = \<lparr>articles = [article_50, article_51],
     embeddings = [], clusters = [], cluster_members = []\<rparr>"

text \<open>Three embedded articles, enough for a clustering run.\<close>

definition three_embedded_db :: "nat database" where
  "three_embedded_db = \<lparr>articles =
       [\<lparr>art_id = 1, art_title = ''Senate passes AI bill'', art_text = ''text one'',
          art_published_at = Some 10\<rparr>,
        \<lparr>art_id = 2, art_title = ''AI bill passes Senate'', art_text = ''text two'',
          art_published_at = Some 30\<rparr>,
        \<lparr>art_id = 3, art_title = ''AI bill clears Senate'', art_text = ''text three'',
          art_published_at = Some 20\<rparr>],
     embeddings =
       [\<lparr>emb_article_id = 1, emb_vector = 11, emb_model_name = EMBEDDING_MODEL\<rparr>,
        \<lparr>emb_article_id = 2, emb_vector = 12, emb_model_name = EMBEDDING_MODEL\<rparr>,
        \<lparr>emb_article_id = 3, emb_vector = 13, emb_model_name = EMBEDDING_MODEL\<rparr>],
     clusters = [(5, ''Old cluster'')],
     cluster_members = [(5, 1)]\<rparr>"

text \<open>
  The members of cluster \<open>c\<close> in the words of the specification: the articles whose
  label is \<open>c\<close>, in the order of the input.
\<close>

definition members_of :: "'a list \<Rightarrow> int list \<Rightarrow> int \<Rightarrow> 'a list" where
  "members_of arts labels c = map fst (filter (\<lambda>p. snd p = c) (zip arts labels))"

text \<open>Reading the member list of a cluster out of the grouping dictionary.\<close>

definition lookup_members :: "(int \<times> 'a list) list \<Rightarrow> int \<Rightarrow> 'a list" where
  "lookup_members cs c = (case map_of cs c of None \<Rightarrow> [] | Some ms \<Rightarrow> ms)"

text \<open>
  Five rows with the labels of three clusters and one noise point, and a term model
  that fits clusters of two or more documents, finds no weighted term in the
  document \<open>zero\<close>, and fails otherwise.
\<close>

definition label_row :: "nat \<Rightarrow> string \<Rightarrow> nat article_data" where
  "label_row i t = \<lparr>ad_article_id = int i, ad_vector = i, ad_title = t, ad_text = None,
     ad_published_at = None\<rparr>"

definition label_articles :: "nat article_data list" where
  "label_articles =
     [label_row 1 ''AI bill passes'', label_row 2 ''Storm hits coast'',
      label_row 3 ''Local fair opens'', label_row 4 ''Senate: AI bill'', label_row 5 ''Zero'']"

definition label_ext :: "nat externals" where
  "label_ext = \<lparr>encode = map length, fit_predict = (\<lambda>vs. [0, 1, - 1, 0, 2]),
     fit_transform = (\<lambda>ts. if 2 \<le> length ts then Inr [(''bill'', 1 / 2), (''ai'', 3 / 2)]
        else if ts = [''zero''] then Inr [(''zero'', 0)] else Inl ValueError),
     argsort = (\<lambda>ws. [0..<length ws]),
     str_title = (\<lambda>s. s)\<rparr>"

section \<open>The text normalizer\<close>

text \<open>
  Claim C8. The normalizer is meant to return a string whose characters are all
  alphanumerics, spaces or one of \<open>. , ! ? -\<close>, with runs of whitespace collapsed
  to one space. The class \<open>\w\<close> of the last substitution also keeps the underscore,
  which is none of these: \<open>a_b\<close> comes back unchanged. And the last substitution runs
  after the whitespace has been collapsed, so deleting a character between two
  spaces leaves two spaces side by side: \<open>a @ b\<close> becomes \<open>a  b\<close>.
\<close>

theorem preprocess_text_keeps_underscore:
  "preprocess_text ''a_b'' = ''a_b'' \<and> \<not> spec_whitelist (CHR ''_'')
     \<and> preprocess_text ''a @ b'' = ''a  b''"
  by code_simp

section \<open>The cluster store\<close>

lemma insert_clusters_Inr:
  "insert_clusters flt ls db = Inr db' \<Longrightarrow> db' = db\<lparr>clusters := clusters db @ ls\<rparr>"
proof (induction ls arbitrary: db)
  case Nil
  then show ?case by simp
next
  case (Cons p ls)
  obtain c l where p: "p = (c, l)" by (cases p)
  from Cons.prems p obtain d where
    d: "execute flt (InsertCluster c l) db = Inr d" and r: "insert_clusters flt ls d = Inr db'"
    by (auto split: sum.splits)
  from d have "d = db\<lparr>clusters := clusters db @ [(c, l)]\<rparr>"
    by (auto simp: execute_def split: if_splits option.splits)
  with Cons.IH [OF r] p show ?case by simp
qed

lemma insert_members_Inr:
  "insert_members flt asg db = Inr db' \<Longrightarrow>
     db' = db\<lparr>cluster_members := cluster_members db @ [(c, a). (a, c) \<leftarrow> asg, c \<ge> 0]\<rparr>"
proof (induction asg arbitrary: db)
  case Nil
  then show ?case by simp
next
  case (Cons p asg)
  obtain a c where p: "p = (a, c)" by (cases p)
  show ?case
  proof (cases "c \<ge> 0")
    case True
    with Cons.prems p obtain d where
      d: "execute flt (InsertClusterMember c a) db = Inr d" and
      r: "insert_members flt asg d = Inr db'"
      by (auto split: sum.splits)
    from d have "d = db\<lparr>cluster_members := cluster_members db @ [(c, a)]\<rparr>"
      by (auto simp: execute_def split: if_splits option.splits)
    with Cons.IH [OF r] p True show ?thesis by simp
  next
    case False
    with Cons.prems p have "insert_members flt asg db = Inr db'" by simp
    from Cons.IH [OF this] p False show ?thesis by simp
  qed
qed

lemma update_clusters_body_Inr:
  assumes "update_clusters_body flt asg ls db = Inr db'"
  shows "db' = db\<lparr>clusters := ls, cluster_members := [(c, a). (a, c) \<leftarrow> asg, c \<ge> 0]\<rparr>"
proof -
  from assms obtain d1 d2 d3 where
    d1: "execute flt DeleteClusterMembers db = Inr d1" and
    d2: "execute flt DeleteClusters d1 = Inr d2" and
    d3: "insert_clusters flt ls d2 = Inr d3" and
    d4: "insert_members flt asg d3 = Inr db'"
    by (auto simp: update_clusters_body_def split: sum.splits)
  from d1 have e1: "d1 = db\<lparr>cluster_members := []\<rparr>"
    by (auto simp: execute_def split: if_splits option.splits)
  from d2 have e2: "d2 = d1\<lparr>clusters := []\<rparr>"
    by (auto simp: execute_def split: if_splits option.splits)
  from insert_clusters_Inr [OF d3] insert_members_Inr [OF d4] e1 e2 show ?thesis
    by simp
qed

lemma with_connection_cases:
  "with_connection flt db body = (r, db') \<Longrightarrow>
     (\<exists>e. r = Inl e \<and> db' = db) \<or> (r = Inr () \<and> body db = Inr db')"
  by (auto simp: with_connection_def execute_def split: sum.splits if_splits option.splits)

lemma update_clusters_cases:
  assumes "update_clusters flt db asg ls = (r, db')"
  obtains e where "r = Inl e" and "db' = db"
  | "r = Inr ()" and
    "db' = db\<lparr>clusters := ls, cluster_members := [(c, a). (a, c) \<leftarrow> asg, c \<ge> 0]\<rparr>"
proof -
  from assms have "with_connection flt db (update_clusters_body flt asg ls) = (r, db')"
    by (simp add: update_clusters_def)
  from with_connection_cases [OF this] that update_clusters_body_Inr [of flt asg ls db db']
  show ?thesis by blast
qed

text \<open>
  Claim C2. Whatever statement the store fails at (a delete, an insert or the commit),
  \<open>update_clusters\<close> either reports the failure and leaves the store exactly as it
  was, or succeeds, and then both tables have been replaced: \<open>clusters\<close> holds the
  new labels and \<open>cluster_members\<close> the new assignments that are not noise.
\<close>

theorem update_clusters_all_or_nothing:
  "(case update_clusters flt db asg ls of
      (Inl e, db') \<Rightarrow> db' = db
    | (Inr u, db') \<Rightarrow>
        db' = db\<lparr>clusters := ls, cluster_members := [(c, a). (a, c) \<leftarrow> asg, c \<ge> 0]\<rparr>)"
proof -
  obtain r db' where res: "update_clusters flt db asg ls = (r, db')"
    by (cases "update_clusters flt db asg ls")
  from res show ?thesis
    by (rule update_clusters_cases) (simp_all add: res)
qed

text \<open>
  An instance: the store fails at the second of two cluster rows, after both deletes
  and one insert have run; the failure is reported and the old cluster and its two
  members are still there.
\<close>

theorem update_clusters_all_or_nothing_witness:
  "update_clusters fail_second_cluster small_db [(1, 0), (2, 1)] [(0, ''A''), (1, ''B'')]
     = (Inl OperationalError, small_db)"
proof -
  have f: "fst (update_clusters fail_second_cluster small_db [(1, 0), (2, 1)]
               [(0, ''A''), (1, ''B'')]) = Inl OperationalError"
    by (simp add: update_clusters_def with_connection_def update_clusters_body_def execute_def
        fail_second_cluster_def)
  from update_clusters_all_or_nothing
    [where flt = fail_second_cluster and db = small_db and asg = "[(1, 0), (2, 1)]"
       and ls = "[(0, ''A''), (1, ''B'')]"] f
  show ?thesis
    by (cases "update_clusters fail_second_cluster small_db [(1, 0), (2, 1)]
                 [(0, ''A''), (1, ''B'')]") auto
qed

text \<open>
  Claim C10. \<open>update_clusters\<close> never inserts a membership row with a negative
  cluster id, whatever assignments the caller passes: after a successful call the
  membership table is exactly the assignments with a cluster id of at least 0, and a
  row with a negative cluster id can only be found after a failed call, which left it
  where it already was.
\<close>

theorem update_clusters_omits_noise:
  assumes "update_clusters flt db asg ls = (r, db')"
  shows "(r = Inr () \<longrightarrow> cluster_members db' = [(c, a). (a, c) \<leftarrow> asg, c \<ge> 0])
       \<and> (\<forall>(c, a) \<in> set (cluster_members db').
            c < 0 \<longrightarrow> r \<noteq> Inr () \<and> (c, a) \<in> set (cluster_members db))"
  using assms by (rule update_clusters_cases) auto

theorem update_clusters_omits_noise_witness:
  "update_clusters no_faults small_db [(1, 0), (2, - 1), (3, 0)] [(0, ''A'')]
     = (Inr (), small_db\<lparr>clusters := [(0, ''A'')], cluster_members := [(0, 1), (0, 3)]\<rparr>)
   \<and> cluster_members
       (snd (update_clusters no_faults small_db [(1, 0), (2, - 1), (3, 0)] [(0, ''A'')]))
       = [(0, 1), (0, 3)]"
proof -
  have e: "update_clusters no_faults small_db [(1, 0), (2, - 1), (3, 0)] [(0, ''A'')]
     = (Inr (), small_db\<lparr>clusters := [(0, ''A'')], cluster_members := [(0, 1), (0, 3)]\<rparr>)"
    by (simp add: update_clusters_def with_connection_def update_clusters_body_def execute_def
        no_faults_def)
  from update_clusters_omits_noise [OF e] e show ?thesis by simp
qed

section \<open>The clustering run\<close>

lemma length_get_all_embeddings_small_db: "length (get_all_embeddings small_db) = 2"
  by (simp add: get_all_embeddings_def small_db_def)

text \<open>
  Claim C1, as the code has it. With fewer embedding rows than the minimum cluster
  size, the clusterer labels every row as noise, and the run returns 0 without
  writing to the store: it creates no cluster, and the cluster tables stay as they
  were (empty if they were empty).
\<close>

theorem run_clustering_below_min_cluster_size:
  assumes "length (get_all_embeddings db) < MIN_CLUSTER_SIZE"
  shows "cluster_articles ext (map ad_vector (get_all_embeddings db))
           = replicate (length (get_all_embeddings db)) (- 1)
       \<and> run_clustering ext flt db = (Inr 0, db)"
  using assms by (simp add: cluster_articles_def run_clustering_def Let_def)

theorem run_clustering_below_min_cluster_size_witness:
  "length (get_all_embeddings small_db) < MIN_CLUSTER_SIZE
   \<and> cluster_articles demo_ext (map ad_vector (get_all_embeddings small_db)) = [- 1, - 1]
   \<and> run_clustering demo_ext no_faults small_db = (Inr 0, small_db)"
proof -
  have h: "length (get_all_embeddings small_db) < MIN_CLUSTER_SIZE"
    by (simp add: length_get_all_embeddings_small_db MIN_CLUSTER_SIZE_def)
  from run_clustering_below_min_cluster_size [OF h, of demo_ext no_faults] h show ?thesis
    by (simp add: length_get_all_embeddings_small_db numeral_2_eq_2)
qed

text \<open>
  The claim as the specification states it fails: the store holds a cluster from
  before, the run sees two embedding rows, and the cluster is still stored afterwards.
\<close>

theorem run_clustering_keeps_old_clusters:
  "length (get_all_embeddings small_db) < MIN_CLUSTER_SIZE
   \<and> clusters (snd (run_clustering demo_ext no_faults small_db)) = [(0, ''AI Regulation'')]"
proof -
  have "run_clustering demo_ext no_faults small_db = (Inr 0, small_db)"
    by (simp add: run_clustering_def length_get_all_embeddings_small_db MIN_CLUSTER_SIZE_def
        Let_def)
  moreover have "clusters small_db = [(0, ''AI Regulation'')]"
    by (simp add: small_db_def)
  ultimately show ?thesis
    by (simp add: length_get_all_embeddings_small_db MIN_CLUSTER_SIZE_def)
qed

section \<open>The embedding store\<close>

text \<open>
  Claim C7, as the code has it. An article is passed to the embedding model exactly
  when its normalized string has more than 50 characters (at least 51): the texts
  given to the model are the normalized strings of those articles, in order.
\<close>

theorem embedding_texts_threshold:
  assumes "a \<in> set arts"
  shows "((art_id a, preprocess_text (combined_text a)) \<in> set (embedding_texts arts)
           \<longleftrightarrow> length (preprocess_text (combined_text a)) > 50)
       \<and> generate_embeddings ext arts =
           (if embedding_texts arts = [] then ([], [])
            else (map fst (embedding_texts arts), encode ext (map snd (embedding_texts arts))))"
  using assms by (auto simp: embedding_texts_def generate_embeddings_def Let_def)

theorem embedding_texts_threshold_witness:
  "(8, preprocess_text (combined_text article_51)) \<in> set (embedding_texts [article_50, article_51])
   \<and> length (preprocess_text (combined_text article_51)) = 51
   \<and> generate_embeddings demo_ext [article_50, article_51] = ([8], [51])"
proof -
  have a: "article_51 \<in> set [article_50, article_51]" by simp
  have l: "length (preprocess_text (combined_text article_51)) = 51" by code_simp
  have l0: "length (preprocess_text (combined_text article_50)) = 50" by code_simp
  have i: "art_id article_51 = 8" by (simp add: article_51_def)
  have t: "embedding_texts [article_50, article_51]
             = [(8, preprocess_text (combined_text article_51))]"
    by (simp add: embedding_texts_def l l0 i)
  from embedding_texts_threshold [OF a, of demo_ext] l i t show ?thesis
    by (simp add: demo_ext_def)
qed

text \<open>
  The claim with a threshold of "at least 50" fails: a normalized string of exactly
  50 characters is left out.
\<close>

theorem embedding_texts_excludes_length_50:
  "length (preprocess_text (combined_text article_50)) = 50
     \<and> embedding_texts [article_50] = []"
  by code_simp

lemma insert_embedding_cases:
  assumes "insert_embedding flt db i v m = (r, db')"
  obtains e where "r = Inl e" and "db' = db"
  | "r = Inr ()" and
    "db' = db\<lparr>embeddings := embeddings db @
       [\<lparr>emb_article_id = i, emb_vector = v, emb_model_name = m\<rparr>]\<rparr>"
proof -
  from assms have "with_connection flt db (execute flt (InsertEmbedding i v m)) = (r, db')"
    by (simp add: insert_embedding_def)
  from with_connection_cases [OF this] that show ?thesis
    by (auto simp: execute_def split: if_splits option.splits)
qed

lemma in_take_filter_mono:
  "a \<in> set (take n (filter P xs)) \<Longrightarrow> (\<And>x. Q x \<Longrightarrow> P x) \<Longrightarrow> Q a \<Longrightarrow>
     a \<in> set (take n (filter Q xs))"
proof (induction xs arbitrary: n)
  case Nil
  then show ?case by simp
next
  case (Cons x xs)
  show ?case
  proof (cases n)
    case 0
    with Cons.prems show ?thesis by simp
  next
    case (Suc m)
    show ?thesis
    proof (cases "Q x")
      case True
      with Cons.prems(2) have "P x" by simp
      with Cons.prems(1) Suc have "a = x \<or> a \<in> set (take m (filter P xs))" by simp
      then show ?thesis
      proof
        assume "a = x" with True Suc show ?thesis by simp
      next
        assume "a \<in> set (take m (filter P xs))"
        from Cons.IH [OF this Cons.prems(2) Cons.prems(3)] True Suc show ?thesis by simp
      qed
    next
      case False
      with Cons.prems(3) have ne: "a \<noteq> x" by auto
      have "a \<in> set (take n (filter P xs))"
      proof (cases "P x")
        case True
        with Cons.prems(1) Suc ne have "a \<in> set (take m (filter P xs))" by simp
        with set_take_subset_set_take [of m n "filter P xs"] Suc show ?thesis by auto
      next
        case False
        with Cons.prems(1) show ?thesis by simp
      qed
      from Cons.IH [OF this Cons.prems(2) Cons.prems(3)] False show ?thesis by simp
    qed
  qed
qed

lemma store_embeddings_frame:
  "store_embeddings flt db batch = (db', logged) \<Longrightarrow>
     articles db' = articles db \<and> clusters db' = clusters db
     \<and> cluster_members db' = cluster_members db"
proof (induction batch arbitrary: db db' logged)
  case Nil
  then show ?case by simp
next
  case (Cons p batch)
  obtain i v where p: "p = (i, v)" by (cases p)
  obtain r d1 where ins: "insert_embedding flt db i v EMBEDDING_MODEL = (r, d1)"
    by (cases "insert_embedding flt db i v EMBEDDING_MODEL")
  obtain d2 lg where rest: "store_embeddings flt d1 batch = (d2, lg)"
    by (cases "store_embeddings flt d1 batch")
  from Cons.prems p ins rest have d: "db' = d2" by (cases r) simp_all
  from ins have "articles d1 = articles db \<and> clusters d1 = clusters db
     \<and> cluster_members d1 = cluster_members db"
    by (rule insert_embedding_cases) simp_all
  with Cons.IH [OF rest] d show ?case by simp
qed


lemma store_embeddings_Cons_cases:
  assumes "store_embeddings flt db ((i, v) # batch) = (db', logged)"
  obtains e lg where "logged = (i, e) # lg" and "store_embeddings flt db batch = (db', lg)"
  | "store_embeddings flt
       (db\<lparr>embeddings := embeddings db @
          [\<lparr>emb_article_id = i, emb_vector = v, emb_model_name = EMBEDDING_MODEL\<rparr>]\<rparr>)
       batch = (db', logged)"
proof -
  obtain r d1 where ins: "insert_embedding flt db i v EMBEDDING_MODEL = (r, d1)"
    by (cases "insert_embedding flt db i v EMBEDDING_MODEL")
  obtain d2 lg where rest: "store_embeddings flt d1 batch = (d2, lg)"
    by (cases "store_embeddings flt d1 batch")
  from ins show ?thesis
  proof (rule insert_embedding_cases)
    fix e assume "r = Inl e" and "d1 = db"
    with assms ins rest that(1) [of e lg] show ?thesis by simp
  next
    assume "r = Inr ()" and
      "d1 = db\<lparr>embeddings := embeddings db @
          [\<lparr>emb_article_id = i, emb_vector = v, emb_model_name = EMBEDDING_MODEL\<rparr>]\<rparr>"
    with assms ins rest that(2) show ?thesis by simp
  qed
qed

lemma store_embeddings_rows:
  "store_embeddings flt db batch = (db', logged) \<Longrightarrow>
     \<exists>rows. embeddings db' = embeddings db @ rows
        \<and> length rows + length logged = length batch
        \<and> emb_article_id ` set rows \<subseteq> fst ` set batch
        \<and> fst ` set logged \<subseteq> fst ` set batch"
proof (induction batch arbitrary: db logged)
  case Nil
  then show ?case by simp
next
  case (Cons p batch)
  obtain i v where p: "p = (i, v)" by (cases p)
  from Cons.prems [unfolded p] show ?case
  proof (rule store_embeddings_Cons_cases)
    fix e lg
    assume l: "logged = (i, e) # lg" and r: "store_embeddings flt db batch = (db', lg)"
    from Cons.IH [OF r] obtain rows where
      "embeddings db' = embeddings db @ rows" "length rows + length lg = length batch"
      "emb_article_id ` set rows \<subseteq> fst ` set batch" "fst ` set lg \<subseteq> fst ` set batch"
      by blast
    with l p show ?thesis by (intro exI [of _ rows]) auto
  next
    let ?row = "\<lparr>emb_article_id = i, emb_vector = v, emb_model_name = EMBEDDING_MODEL\<rparr>"
    assume r: "store_embeddings flt (db\<lparr>embeddings := embeddings db @ [?row]\<rparr>) batch
                 = (db', logged)"
    from Cons.IH [OF r] obtain rows where
      "embeddings db' = (embeddings db @ [?row]) @ rows"
      "length rows + length logged = length batch"
      "emb_article_id ` set rows \<subseteq> fst ` set batch" "fst ` set logged \<subseteq> fst ` set batch"
      by auto
    with p show ?thesis by (intro exI [of _ "?row # rows"]) auto
  qed
qed

lemma store_embeddings_stored_or_logged:
  "store_embeddings flt db batch = (db', logged) \<Longrightarrow> (i, v) \<in> set batch \<Longrightarrow>
     i \<in> fst ` set logged
     \<or> \<lparr>emb_article_id = i, emb_vector = v, emb_model_name = EMBEDDING_MODEL\<rparr>
          \<in> set (embeddings db')"
proof (induction batch arbitrary: db logged)
  case Nil
  then show ?case by simp
next
  case (Cons p batch)
  obtain j w where p: "p = (j, w)" by (cases p)
  from Cons.prems(1) [unfolded p] show ?case
  proof (rule store_embeddings_Cons_cases)
    fix e lg
    assume l: "logged = (j, e) # lg" and r: "store_embeddings flt db batch = (db', lg)"
    show ?thesis
    proof (cases "(i, v) = (j, w)")
      case True
      with l show ?thesis by simp
    next
      case False
      with Cons.prems(2) p have "(i, v) \<in> set batch" by auto
      from Cons.IH [OF r this] l show ?thesis by auto
    qed
  next
    let ?row = "\<lparr>emb_article_id = j, emb_vector = w, emb_model_name = EMBEDDING_MODEL\<rparr>"
    assume r: "store_embeddings flt (db\<lparr>embeddings := embeddings db @ [?row]\<rparr>) batch
                 = (db', logged)"
    show ?thesis
    proof (cases "(i, v) = (j, w)")
      case True
      from store_embeddings_rows [OF r] obtain rows where
        "embeddings db' = (embeddings db @ [?row]) @ rows" by auto
      with True show ?thesis by simp
    next
      case False
      with Cons.prems(2) p have "(i, v) \<in> set batch" by auto
      from Cons.IH [OF r this] show ?thesis .
    qed
  qed
qed

lemma store_embeddings_logged_not_stored:
  "store_embeddings flt db batch = (db', logged) \<Longrightarrow> distinct (map fst batch) \<Longrightarrow>
     i \<in> fst ` set logged \<Longrightarrow>
     filter (\<lambda>r. emb_article_id r = i) (embeddings db')
       = filter (\<lambda>r. emb_article_id r = i) (embeddings db)"
proof (induction batch arbitrary: db logged)
  case Nil
  then show ?case by simp
next
  case (Cons p batch)
  obtain j w where p: "p = (j, w)" by (cases p)
  from Cons.prems(2) p have dj: "j \<notin> fst ` set batch" and db: "distinct (map fst batch)"
    by auto
  from Cons.prems(1) [unfolded p] show ?case
  proof (rule store_embeddings_Cons_cases)
    fix e lg
    assume l: "logged = (j, e) # lg" and r: "store_embeddings flt db batch = (db', lg)"
    show ?thesis
    proof (cases "i \<in> fst ` set lg")
      case True
      from Cons.IH [OF r db True] show ?thesis .
    next
      case False
      with Cons.prems(3) l have ij: "i = j" by auto
      from store_embeddings_rows [OF r] obtain rows where
        rows: "embeddings db' = embeddings db @ rows"
          "emb_article_id ` set rows \<subseteq> fst ` set batch" by blast
      with dj ij have "filter (\<lambda>r. emb_article_id r = i) rows = []"
        by (auto simp: filter_empty_conv)
      with rows(1) show ?thesis by simp
    qed
  next
    let ?row = "\<lparr>emb_article_id = j, emb_vector = w, emb_model_name = EMBEDDING_MODEL\<rparr>"
    assume r: "store_embeddings flt (db\<lparr>embeddings := embeddings db @ [?row]\<rparr>) batch
                 = (db', logged)"
    from store_embeddings_rows [OF r] have "fst ` set logged \<subseteq> fst ` set batch" by blast
    with Cons.prems(3) dj have "i \<noteq> j" by auto
    with Cons.IH [OF r db Cons.prems(3)] show ?thesis by simp
  qed
qed

lemma has_embedding_iff:
  "has_embedding db a \<longleftrightarrow> (\<exists>r \<in> set (embeddings db). emb_article_id r = art_id a)"
  unfolding has_embedding_def image_iff by metis

lemma store_embeddings_failed_stays_candidate:
  assumes st: "store_embeddings flt db batch = (db', logged)"
    and d: "distinct (map fst batch)"
    and a: "a \<in> set (get_articles_without_embeddings db n)"
    and l: "art_id a \<in> fst ` set logged"
  shows "a \<in> set (get_articles_without_embeddings db' n)"
proof -
  from store_embeddings_frame [OF st] have arts: "articles db' = articles db" by simp
  from store_embeddings_rows [OF st] obtain rows where
    rows: "embeddings db' = embeddings db @ rows" by blast
  from a have a1: "a \<in> set (take n (filter (\<lambda>x. \<not> has_embedding db x) (articles db)))"
    by (simp add: get_articles_without_embeddings_def)
  then have "a \<in> set (filter (\<lambda>x. \<not> has_embedding db x) (articles db))"
    by (rule in_set_takeD)
  then have na: "\<not> has_embedding db a" by simp
  have q: "\<not> has_embedding db' a"
  proof
    assume "has_embedding db' a"
    then obtain r where "r \<in> set (embeddings db')" "emb_article_id r = art_id a"
      unfolding has_embedding_iff by blast
    then have "r \<in> set (filter (\<lambda>r. emb_article_id r = art_id a) (embeddings db'))" by simp
    with store_embeddings_logged_not_stored [OF st d l]
    have "r \<in> set (embeddings db)" by simp
    with \<open>emb_article_id r = art_id a\<close> na show False
      unfolding has_embedding_iff by blast
  qed
  have m: "\<And>x. \<not> has_embedding db' x \<Longrightarrow> \<not> has_embedding db x"
    using rows unfolding has_embedding_iff by auto
  from in_take_filter_mono [OF a1, of "\<lambda>x. \<not> has_embedding db' x", OF m q] arts
  show "a \<in> set (get_articles_without_embeddings db' n)"
    by (simp add: get_articles_without_embeddings_def)
qed

lemma fst_store_embeddings_Cons:
  "fst (store_embeddings flt db ((j, w) # xs))
     = fst (store_embeddings flt (snd (insert_embedding flt db j w EMBEDDING_MODEL)) xs)"
proof -
  obtain r d1 where ins: "insert_embedding flt db j w EMBEDDING_MODEL = (r, d1)"
    by (cases "insert_embedding flt db j w EMBEDDING_MODEL")
  obtain d2 lg where rest: "store_embeddings flt d1 xs = (d2, lg)"
    by (cases "store_embeddings flt d1 xs")
  from ins rest show ?thesis by (cases r) simp_all
qed

lemma store_embeddings_attempts:
  "store_embeddings flt db batch = (db', logged) \<Longrightarrow> k < length batch \<Longrightarrow>
     (\<forall>e. fst (insert_embedding flt (fst (store_embeddings flt db (take k batch)))
               (fst (batch ! k)) (snd (batch ! k)) EMBEDDING_MODEL) = Inl e
           \<longrightarrow> (fst (batch ! k), e) \<in> set logged)
     \<and> (fst (insert_embedding flt (fst (store_embeddings flt db (take k batch)))
               (fst (batch ! k)) (snd (batch ! k)) EMBEDDING_MODEL) = Inr ()
           \<longrightarrow> \<lparr>emb_article_id = fst (batch ! k), emb_vector = snd (batch ! k),
                  emb_model_name = EMBEDDING_MODEL\<rparr> \<in> set (embeddings db'))"
proof (induction batch arbitrary: db logged k)
  case Nil
  then show ?case by simp
next
  case (Cons p batch)
  obtain j w where p: "p = (j, w)" by (cases p)
  obtain r d1 where ins: "insert_embedding flt db j w EMBEDDING_MODEL = (r, d1)"
    by (cases "insert_embedding flt db j w EMBEDDING_MODEL")
  obtain d2 lg where rest: "store_embeddings flt d1 batch = (d2, lg)"
    by (cases "store_embeddings flt d1 batch")
  from Cons.prems(1) p ins rest have d2: "d2 = db'" by (cases r) simp_all
  from store_embeddings_rows [OF rest] obtain rows where
    rows: "embeddings db' = embeddings d1 @ rows" unfolding d2 by blast
  show ?case
  proof (cases k)
    case 0
    from ins show ?thesis
    proof (rule insert_embedding_cases)
      fix e assume r: "r = Inl e" and "d1 = db"
      with Cons.prems(1) p ins rest have "logged = (j, e) # lg" by simp
      with 0 p ins r show ?thesis by simp
    next
      assume r: "r = Inr ()" and d1: "d1 = db\<lparr>embeddings := embeddings db @
          [\<lparr>emb_article_id = j, emb_vector = w, emb_model_name = EMBEDDING_MODEL\<rparr>]\<rparr>"
      with rows 0 p ins show ?thesis by simp
    qed
  next
    case (Suc k')
    with Cons.prems(2) have k': "k' < length batch" by simp
    have lg: "set lg \<subseteq> set logged"
      using Cons.prems(1) p ins rest by (cases r) auto
    have st: "fst (store_embeddings flt db (take (Suc k') (p # batch)))
        = fst (store_embeddings flt d1 (take k' batch))"
      unfolding p using fst_store_embeddings_Cons [of flt db j w "take k' batch"] ins
      by simp
    from Cons.IH [OF rest [unfolded d2] k'] lg show ?thesis
      unfolding Suc nth_Cons_Suc st by blast
  qed
qed

lemma store_embeddings_logged_failed:
  "store_embeddings flt db batch = (db', logged) \<Longrightarrow> (i, e) \<in> set logged \<Longrightarrow>
     \<exists>k < length batch. fst (batch ! k) = i
        \<and> fst (insert_embedding flt (fst (store_embeddings flt db (take k batch))) i
               (snd (batch ! k)) EMBEDDING_MODEL) = Inl e"
proof (induction batch arbitrary: db logged)
  case Nil
  then show ?case by simp
next
  case (Cons p batch)
  obtain j w where p: "p = (j, w)" by (cases p)
  obtain r d1 where ins: "insert_embedding flt db j w EMBEDDING_MODEL = (r, d1)"
    by (cases "insert_embedding flt db j w EMBEDDING_MODEL")
  obtain d2 lg where rest: "store_embeddings flt d1 batch = (d2, lg)"
    by (cases "store_embeddings flt d1 batch")
  from Cons.prems(1) p ins rest have d2: "d2 = db'" by (cases r) simp_all
  have later: ?case if "(i, e) \<in> set lg"
  proof -
    from Cons.IH [OF rest [unfolded d2] that] obtain k where
      k: "k < length batch" "fst (batch ! k) = i"
        "fst (insert_embedding flt (fst (store_embeddings flt d1 (take k batch))) i
               (snd (batch ! k)) EMBEDDING_MODEL) = Inl e"
      by blast
    have "fst (store_embeddings flt db (take (Suc k) (p # batch)))
        = fst (store_embeddings flt d1 (take k batch))"
      unfolding p using fst_store_embeddings_Cons [of flt db j w "take k batch"] ins by simp
    with k show ?thesis by (intro exI [of _ "Suc k"]) simp
  qed
  from ins show ?case
  proof (rule insert_embedding_cases)
    fix e0 assume r: "r = Inl e0" and "d1 = db"
    with Cons.prems(1) p ins rest have l: "logged = (j, e0) # lg" by simp
    show ?thesis
    proof (cases "(i, e) = (j, e0)")
      case True
      with p ins r show ?thesis by (intro exI [of _ 0]) simp
    next
      case False
      with Cons.prems(2) l have "(i, e) \<in> set lg" by auto
      then show ?thesis by (rule later)
    qed
  next
    assume "r = Inr ()"
    with Cons.prems(1) p ins rest have "logged = lg" by simp
    with Cons.prems(2) have "(i, e) \<in> set lg" by simp
    then show ?thesis by (rule later)
  qed
qed

text \<open>
  Claim C9. \<open>store_embeddings\<close> goes through the whole batch whatever fails. For
  every position of the batch, the insert of that article is tried on the store as
  the articles before it left it: when it raises, the article and the exception are
  logged; when it returns, the row is in the store at the end. Every log entry is
  the exception that the insert of an article of the batch raised, so nothing is
  logged without a failure. Hence every article of the batch is either stored or
  logged (the stored rows and the log entries add up to the batch), one failure never
  stops the others, and an article of the batch whose insert failed has no new row:
  when it was among the articles without embeddings before, the next run finds it
  there again.
\<close>

theorem store_embeddings_skips_failed_article:
  assumes "store_embeddings flt db batch = (db', logged)"
  shows "(\<forall>k < length batch.
            (\<forall>e. fst (insert_embedding flt (fst (store_embeddings flt db (take k batch)))
                      (fst (batch ! k)) (snd (batch ! k)) EMBEDDING_MODEL) = Inl e
                  \<longrightarrow> (fst (batch ! k), e) \<in> set logged)
          \<and> (fst (insert_embedding flt (fst (store_embeddings flt db (take k batch)))
                      (fst (batch ! k)) (snd (batch ! k)) EMBEDDING_MODEL) = Inr ()
                  \<longrightarrow> \<lparr>emb_article_id = fst (batch ! k), emb_vector = snd (batch ! k),
                         emb_model_name = EMBEDDING_MODEL\<rparr> \<in> set (embeddings db')))
       \<and> (\<forall>(i, e) \<in> set logged. \<exists>k < length batch. fst (batch ! k) = i
            \<and> fst (insert_embedding flt (fst (store_embeddings flt db (take k batch))) i
                   (snd (batch ! k)) EMBEDDING_MODEL) = Inl e)
       \<and> (\<forall>(i, v) \<in> set batch. i \<in> fst ` set logged
            \<or> \<lparr>emb_article_id = i, emb_vector = v, emb_model_name = EMBEDDING_MODEL\<rparr>
                 \<in> set (embeddings db'))
       \<and> length (embeddings db') + length logged = length (embeddings db) + length batch
       \<and> (distinct (map fst batch) \<longrightarrow>
            (\<forall>a \<in> set (get_articles_without_embeddings db n).
               art_id a \<in> fst ` set logged \<longrightarrow> a \<in> set (get_articles_without_embeddings db' n)))"
proof -
  have n1: "\<forall>k < length batch.
            (\<forall>e. fst (insert_embedding flt (fst (store_embeddings flt db (take k batch)))
                      (fst (batch ! k)) (snd (batch ! k)) EMBEDDING_MODEL) = Inl e
                  \<longrightarrow> (fst (batch ! k), e) \<in> set logged)
          \<and> (fst (insert_embedding flt (fst (store_embeddings flt db (take k batch)))
                      (fst (batch ! k)) (snd (batch ! k)) EMBEDDING_MODEL) = Inr ()
                  \<longrightarrow> \<lparr>emb_article_id = fst (batch ! k), emb_vector = snd (batch ! k),
                         emb_model_name = EMBEDDING_MODEL\<rparr> \<in> set (embeddings db'))"
    using store_embeddings_attempts [OF assms] by blast
  have n2: "\<forall>(i, e) \<in> set logged. \<exists>k < length batch. fst (batch ! k) = i
            \<and> fst (insert_embedding flt (fst (store_embeddings flt db (take k batch))) i
                   (snd (batch ! k)) EMBEDDING_MODEL) = Inl e"
    using store_embeddings_logged_failed [OF assms] by blast
  have a: "\<forall>(i, v) \<in> set batch. i \<in> fst ` set logged
            \<or> \<lparr>emb_article_id = i, emb_vector = v, emb_model_name = EMBEDDING_MODEL\<rparr>
                 \<in> set (embeddings db')"
    using store_embeddings_stored_or_logged [OF assms] by blast
  from store_embeddings_rows [OF assms]
  have b: "length (embeddings db') + length logged = length (embeddings db) + length batch"
    by auto
  have c: "distinct (map fst batch) \<longrightarrow>
            (\<forall>a \<in> set (get_articles_without_embeddings db n).
               art_id a \<in> fst ` set logged \<longrightarrow> a \<in> set (get_articles_without_embeddings db' n))"
    using store_embeddings_failed_stays_candidate [OF assms] by blast
  from n1 n2 a b c show ?thesis by blast
qed

lemma store_embeddings_fail_article_2:
  "store_embeddings fail_article_2 three_articles_db [(1, 11), (2, 12), (3, 13)]
     = (three_articles_db\<lparr>embeddings :=
          [\<lparr>emb_article_id = 1, emb_vector = 11, emb_model_name = EMBEDDING_MODEL\<rparr>,
           \<lparr>emb_article_id = 3, emb_vector = 13, emb_model_name = EMBEDDING_MODEL\<rparr>]\<rparr>,
        [(2, OperationalError)])"
  by (simp add: insert_embedding_def with_connection_def execute_def fail_article_2_def
      three_articles_db_def)

theorem store_embeddings_skips_failed_article_witness:
  "store_embeddings fail_article_2 three_articles_db [(1, 11), (2, 12), (3, 13)]
     = (three_articles_db\<lparr>embeddings :=
          [\<lparr>emb_article_id = 1, emb_vector = 11, emb_model_name = EMBEDDING_MODEL\<rparr>,
           \<lparr>emb_article_id = 3, emb_vector = 13, emb_model_name = EMBEDDING_MODEL\<rparr>]\<rparr>,
        [(2, OperationalError)])
   \<and> \<lparr>art_id = 2, art_title = ''two'', art_text = [], art_published_at = None\<rparr>
       \<in> set (get_articles_without_embeddings
           (fst (store_embeddings fail_article_2 three_articles_db [(1, 11), (2, 12), (3, 13)])) 50)"
proof -
  have a: "\<lparr>art_id = 2, art_title = ''two'', art_text = [], art_published_at = None\<rparr>
      \<in> set (get_articles_without_embeddings three_articles_db 50)"
    by (simp add: get_articles_without_embeddings_def has_embedding_def three_articles_db_def)
  from store_embeddings_skips_failed_article [OF store_embeddings_fail_article_2, of 50] a store_embeddings_fail_article_2
  show ?thesis by auto
qed

lemma generate_embeddings_for_unprocessed_unfold:
  "generate_embeddings_for_unprocessed ext flt db =
     (let sel = embedding_texts (get_articles_without_embeddings db 50) in
      if sel = [] then (0, db)
      else (length sel,
            fst (store_embeddings flt db (zip (map fst sel) (encode ext (map snd sel))))))"
  by (simp add: generate_embeddings_for_unprocessed_def generate_embeddings_def Let_def
      embedding_texts_def)



lemma candidate_has_no_embedding:
  assumes "a \<in> set (get_articles_without_embeddings db limit)"
  shows "a \<in> set (articles db) \<and> \<not> has_embedding db a"
proof -
  from assms have "a \<in> set (take limit (filter (\<lambda>a. \<not> has_embedding db a) (articles db)))"
    by (simp add: get_articles_without_embeddings_def)
  then have "a \<in> set (filter (\<lambda>a. \<not> has_embedding db a) (articles db))"
    by (rule in_set_takeD)
  then show ?thesis by simp
qed





lemma insert_embedding_no_faults:
  assumes "\<forall>d s. flt d s = None"
  shows "insert_embedding flt db i v m =
     (Inr (), db\<lparr>embeddings := embeddings db @
        [\<lparr>emb_article_id = i, emb_vector = v, emb_model_name = m\<rparr>]\<rparr>)"
  using assms by (simp add: insert_embedding_def with_connection_def execute_def)

lemma store_embeddings_no_faults:
  assumes "\<forall>d s. flt d s = None"
  shows "store_embeddings flt db batch =
     (db\<lparr>embeddings := embeddings db @
        map (\<lambda>(i, v). \<lparr>emb_article_id = i, emb_vector = v, emb_model_name = EMBEDDING_MODEL\<rparr>)
          batch\<rparr>, [])"
proof (induction batch arbitrary: db)
  case Nil
  show ?case by simp
next
  case (Cons p batch)
  obtain i v where p: "p = (i, v)" by (cases p)
  show ?case
    unfolding p by (simp add: insert_embedding_no_faults [OF assms] Cons.IH)
qed

lemma length_filter_eq_distinct:
  "distinct xs \<Longrightarrow> k \<in> set xs \<Longrightarrow> length (filter (\<lambda>x. x = k) xs) = 1"
  by (induction xs) (auto simp: filter_empty_conv)

lemma generate_embeddings_for_unprocessed_no_faults:
  assumes nf: "\<forall>d s. flt d s = None" and enc: "\<forall>ts. length (encode ext ts) = length ts"
  shows "articles (snd (generate_embeddings_for_unprocessed ext flt db)) = articles db
     \<and> map emb_article_id (embeddings (snd (generate_embeddings_for_unprocessed ext flt db)))
         = map emb_article_id (embeddings db)
             @ map fst (embedding_texts (get_articles_without_embeddings db 50))"
proof -
  define sel where "sel = embedding_texts (get_articles_without_embeddings db 50)"
  define batch where "batch = zip (map fst sel) (encode ext (map snd sel))"
  have unf: "generate_embeddings_for_unprocessed ext flt db =
      (if sel = [] then (0, db) else (length sel, fst (store_embeddings flt db batch)))"
    unfolding generate_embeddings_for_unprocessed_unfold sel_def batch_def Let_def ..
  have len: "length (encode ext (map snd sel)) = length (map fst sel)"
    using enc by simp
  have b: "map fst batch = map fst sel"
    unfolding batch_def using len by (simp add: map_fst_zip del: length_map)
  have m: "map emb_article_id
      (map (\<lambda>(i, v). \<lparr>emb_article_id = i, emb_vector = v, emb_model_name = EMBEDDING_MODEL\<rparr>)
         batch) = map fst batch"
    by (induction batch) auto
  show ?thesis
  proof (cases "sel = []")
    case True
    with unf show ?thesis by (simp add: sel_def [symmetric])
  next
    case False
    with unf have "snd (generate_embeddings_for_unprocessed ext flt db)
        = fst (store_embeddings flt db batch)" by simp
    then show ?thesis
      by (simp add: store_embeddings_no_faults [OF nf] m b sel_def [symmetric] del: map_map)
  qed
qed


text \<open>
  Claim C4, as the code has it. When the store does not fail, the model returns one
  vector per text, article identifiers are unique, no article has two embedding rows
  yet, and at most 50 articles (the limit of the query) are without an embedding,
  then after one call a second call embeds nothing and changes nothing, no article
  has two embedding rows, and every article with enough text has exactly one.
\<close>

theorem generate_embeddings_for_unprocessed_idempotent:
  assumes nf: "\<forall>d s. flt d s = None"
    and enc: "\<forall>ts. length (encode ext ts) = length ts"
    and ids: "distinct (map art_id (articles db))"
    and nodup: "distinct (map emb_article_id (embeddings db))"
    and lim: "length (filter (\<lambda>a. \<not> has_embedding db a) (articles db)) \<le> 50"
    and db1: "db1 = snd (generate_embeddings_for_unprocessed ext flt db)"
  shows "generate_embeddings_for_unprocessed ext flt db1 = (0, db1)
     \<and> distinct (map emb_article_id (embeddings db1))
     \<and> (\<forall>a \<in> set (articles db). length (preprocess_text (combined_text a)) > 50 \<longrightarrow>
          length (filter (\<lambda>r. emb_article_id r = art_id a) (embeddings db1)) = 1)"
proof -
  define cands where "cands = filter (\<lambda>a. \<not> has_embedding db a) (articles db)"
  define new where "new = map art_id (filter (\<lambda>a. length (preprocess_text (combined_text a)) > 50) cands)"
  have c: "get_articles_without_embeddings db 50 = cands"
    using lim by (simp add: get_articles_without_embeddings_def cands_def)
  have sel: "map fst (embedding_texts cands) = new"
    by (simp add: embedding_texts_def new_def comp_def)
  from generate_embeddings_for_unprocessed_no_faults [OF nf enc, of db]
  have arts: "articles db1 = articles db"
    and e1: "map emb_article_id (embeddings db1) = map emb_article_id (embeddings db) @ new"
    by (simp_all add: db1 c sel)
  have dn: "distinct new"
    unfolding new_def cands_def using ids by (simp add: distinct_map_filter)
  have disj: "set (map emb_article_id (embeddings db)) \<inter> set new = {}"
  proof (rule ccontr)
    assume "set (map emb_article_id (embeddings db)) \<inter> set new \<noteq> {}"
    then obtain k where k: "k \<in> set (map emb_article_id (embeddings db))" "k \<in> set new"
      by blast
    from k(2) obtain a where "a \<in> set cands" "art_id a = k" unfolding new_def by auto
    then have "\<not> has_embedding db a" "art_id a = k" unfolding cands_def by auto
    with k(1) show False unfolding has_embedding_def by simp
  qed
  have d1: "distinct (map emb_article_id (embeddings db1))"
    unfolding e1 using nodup dn disj by simp
  have covered: "art_id a \<in> set (map emb_article_id (embeddings db1))"
    if a: "a \<in> set (articles db)" and el: "length (preprocess_text (combined_text a)) > 50" for a
  proof (cases "has_embedding db a")
    case True
    then show ?thesis unfolding e1 has_embedding_def by simp
  next
    case False
    with a el have "art_id a \<in> set new" unfolding new_def cands_def by simp
    then show ?thesis unfolding e1 by simp
  qed
  have one: "length (filter (\<lambda>r. emb_article_id r = art_id a) (embeddings db1)) = 1"
    if a: "a \<in> set (articles db)" and el: "length (preprocess_text (combined_text a)) > 50" for a
  proof -
    have "length (filter (\<lambda>r. emb_article_id r = art_id a) (embeddings db1))
        = length (filter (\<lambda>x. x = art_id a) (map emb_article_id (embeddings db1)))"
      by (simp add: filter_map comp_def)
    also have "\<dots> = 1"
      using d1 covered [OF a el] by (rule length_filter_eq_distinct)
    finally show ?thesis .
  qed
  have none: "embedding_texts (get_articles_without_embeddings db1 50) = []"
  proof -
    have "\<not> length (preprocess_text (combined_text b)) > 50"
      if b: "b \<in> set (get_articles_without_embeddings db1 50)" for b
    proof
      assume el: "length (preprocess_text (combined_text b)) > 50"
      from candidate_has_no_embedding [OF b] arts
      have "b \<in> set (articles db)" and nb: "\<not> has_embedding db1 b" by simp_all
      from covered [OF this(1) el] nb show False unfolding has_embedding_def by simp
    qed
    then show ?thesis by (simp add: embedding_texts_def filter_empty_conv)
  qed
  have "generate_embeddings_for_unprocessed ext flt db1 = (0, db1)"
    unfolding generate_embeddings_for_unprocessed_unfold none by simp
  with d1 one show ?thesis by blast
qed

lemma preprocess_long_title:
  "preprocess_text (replicate 60 (CHR ''a'') @ ''. '') = replicate 60 (CHR ''a'') @ ''.''"
  by code_simp

lemma long_article_text:
  "preprocess_text (combined_text (long_article i)) = replicate 60 (CHR ''a'') @ ''.''"
  using preprocess_long_title by (simp add: combined_text_def long_article_def)

lemma embedding_texts_long:
  "embedding_texts (map long_article xs) = map (\<lambda>i. (int i, replicate 60 (CHR ''a'') @ ''.'')) xs"
  by (induction xs) (simp_all add: embedding_texts_def long_article_text, simp add: long_article_def)

lemma no_faults_all: "\<forall>d s. no_faults d s = None"
  by (simp add: no_faults_def)

lemma demo_ext_encode: "\<forall>ts. length (encode demo_ext ts) = length ts"
  by (simp add: demo_ext_def)

lemma many_first_candidates:
  "get_articles_without_embeddings many_articles_db 50 = map long_article [1..<51]"
proof -
  have "take 50 [1..<52] = [1..<51]" by (simp add: take_upt)
  then show ?thesis
    by (simp add: get_articles_without_embeddings_def has_embedding_def many_articles_db_def
        take_map)
qed


lemma generate_embeddings_for_unprocessed_count:
  "fst (generate_embeddings_for_unprocessed ext flt db)
     = length (embedding_texts (get_articles_without_embeddings db 50))"
  by (simp add: generate_embeddings_for_unprocessed_unfold Let_def)

lemma filter_upt_last:
  "filter (\<lambda>i. \<not> (1 \<le> i \<and> i < 51)) [1..<52] = [51::nat]"
proof -
  have "[1..<52] = [1..<51] @ [51::nat]"
    using upt_Suc_append [of 1 51] by simp
  moreover have "filter (\<lambda>i. \<not> (1 \<le> i \<and> i < 51)) [1..<51] = ([]::nat list)"
    by (simp add: filter_empty_conv)
  ultimately show ?thesis by simp
qed

text \<open>
  The claim as the specification states it fails when more than 50 articles are
  waiting: the first call takes 50 of the 51 articles, and the second call, on the
  unchanged article set, embeds one more.
\<close>

theorem second_call_embeds_beyond_limit:
  "fst (generate_embeddings_for_unprocessed demo_ext no_faults many_articles_db) = 50
   \<and> fst (generate_embeddings_for_unprocessed demo_ext no_faults
        (snd (generate_embeddings_for_unprocessed demo_ext no_faults many_articles_db))) = 1"
proof -
  define db1 where
    "db1 = snd (generate_embeddings_for_unprocessed demo_ext no_faults many_articles_db)"
  have first: "fst (generate_embeddings_for_unprocessed demo_ext no_faults many_articles_db) = 50"
    by (simp add: generate_embeddings_for_unprocessed_count many_first_candidates
        embedding_texts_long)
  have a0: "articles many_articles_db = map long_article [1..<52]"
    and e0: "embeddings many_articles_db = []"
    by (simp_all add: many_articles_db_def)
  from generate_embeddings_for_unprocessed_no_faults [OF no_faults_all demo_ext_encode,
      of many_articles_db]
  have arts: "articles db1 = map long_article [1..<52]"
    and embs: "map emb_article_id (embeddings db1) = map int [1..<51]"
    by (simp_all add: db1_def many_first_candidates embedding_texts_long a0 e0 comp_def)
  have has: "has_embedding db1 (long_article i) \<longleftrightarrow> 1 \<le> i \<and> i < 51" for i
  proof -
    have "has_embedding db1 (long_article i) \<longleftrightarrow> int i \<in> set (map emb_article_id (embeddings db1))"
      by (simp add: has_embedding_def long_article_def)
    also have "\<dots> \<longleftrightarrow> 1 \<le> i \<and> i < 51"
      unfolding embs by auto
    finally show ?thesis .
  qed
  have f1: "filter (\<lambda>a. \<not> has_embedding db1 a) (map long_article xs)
      = map long_article (filter (\<lambda>i. \<not> (1 \<le> i \<and> i < 51)) xs)" for xs
    by (induction xs) (simp_all add: has)
  have cands: "get_articles_without_embeddings db1 50 = map long_article [51]"
    unfolding get_articles_without_embeddings_def arts f1 filter_upt_last by simp
  have "length (embedding_texts (map long_article [51])) = 1"
    unfolding embedding_texts_long by simp
  then have "fst (generate_embeddings_for_unprocessed demo_ext no_faults db1) = 1"
    unfolding generate_embeddings_for_unprocessed_count cands .
  with first show ?thesis by (simp add: db1_def)
qed

lemma two_articles_candidates:
  "filter (\<lambda>a. \<not> has_embedding two_articles_db a) (articles two_articles_db)
     = [article_50, article_51]"
  by (simp add: has_embedding_def two_articles_db_def)

theorem generate_embeddings_for_unprocessed_idempotent_witness:
  "generate_embeddings_for_unprocessed demo_ext no_faults
      (snd (generate_embeddings_for_unprocessed demo_ext no_faults two_articles_db))
     = (0, snd (generate_embeddings_for_unprocessed demo_ext no_faults two_articles_db))
   \<and> length (filter (\<lambda>r. emb_article_id r = 8)
        (embeddings (snd (generate_embeddings_for_unprocessed demo_ext no_faults two_articles_db))))
       = 1"
proof -
  have ids: "distinct (map art_id (articles two_articles_db))"
    by (simp add: two_articles_db_def article_50_def article_51_def)
  have nodup: "distinct (map emb_article_id (embeddings two_articles_db))"
    by (simp add: two_articles_db_def)
  have lim: "length (filter (\<lambda>a. \<not> has_embedding two_articles_db a) (articles two_articles_db))
      \<le> 50"
    by (simp add: two_articles_candidates)
  have a: "article_51 \<in> set (articles two_articles_db)"
    by (simp add: two_articles_db_def)
  have l: "length (preprocess_text (combined_text article_51)) > 50" by code_simp
  have i: "art_id article_51 = 8" by (simp add: article_51_def)
  from generate_embeddings_for_unprocessed_idempotent
    [OF no_faults_all demo_ext_encode ids nodup lim refl] a l i
  show ?thesis by auto
qed

section \<open>Referential integrity of a clustering run\<close>

lemma set_update_subset: "set (AList.update k v al) \<subseteq> insert (k, v) (set al)"
  by (induction al) auto

lemma append_member_keys:
  "fst ` set (append_member l a cs) = insert l (fst ` set cs)"
  by (simp add: append_member_def dom_update)

lemma append_member_distinct:
  "distinct (map fst cs) \<Longrightarrow> distinct (map fst (append_member l a cs))"
  by (simp add: append_member_def distinct_update)

lemma group_by_cluster_keys:
  "group_by_cluster arts i labels cs = Inr cs' \<Longrightarrow>
     fst ` set cs' = fst ` set cs \<union> {l \<in> set labels. l \<ge> 0}"
proof (induction labels arbitrary: i cs)
  case Nil
  then show ?case by simp
next
  case (Cons l labels)
  show ?case
  proof (cases "l \<ge> 0")
    case True
    with Cons.prems have r: "group_by_cluster arts (Suc i) labels
        (append_member l (arts ! i) cs) = Inr cs'"
      by (simp split: if_splits)
    from Cons.IH [OF r] True show ?thesis
      by (auto simp: append_member_keys)
  next
    case False
    with Cons.prems have "group_by_cluster arts (Suc i) labels cs = Inr cs'" by simp
    from Cons.IH [OF this] False show ?thesis by auto
  qed
qed

lemma group_by_cluster_distinct:
  "group_by_cluster arts i labels cs = Inr cs' \<Longrightarrow> distinct (map fst cs) \<Longrightarrow>
     distinct (map fst cs')"
proof (induction labels arbitrary: i cs)
  case Nil
  then show ?case by simp
next
  case (Cons l labels)
  show ?case
  proof (cases "l \<ge> 0")
    case True
    with Cons.prems(1) have r: "group_by_cluster arts (Suc i) labels
        (append_member l (arts ! i) cs) = Inr cs'"
      by (simp split: if_splits)
    from Cons.IH [OF r append_member_distinct [OF Cons.prems(2)]] show ?thesis .
  next
    case False
    with Cons.prems(1) have "group_by_cluster arts (Suc i) labels cs = Inr cs'" by simp
    from Cons.IH [OF this Cons.prems(2)] show ?thesis .
  qed
qed

lemma label_clusters_keys:
  "fst ` set (label_clusters ext cs d) = fst ` set d \<union> fst ` set cs"
proof (induction cs arbitrary: d)
  case Nil
  show ?case by simp
next
  case (Cons p cs)
  obtain c ms where p: "p = (c, ms)" by (cases p)
  show ?case unfolding p by (simp add: Cons.IH dom_update)
qed

lemma label_clusters_distinct:
  "distinct (map fst d) \<Longrightarrow> distinct (map fst (label_clusters ext cs d))"
proof (induction cs arbitrary: d)
  case Nil
  then show ?case by simp
next
  case (Cons p cs)
  obtain c ms where p: "p = (c, ms)" by (cases p)
  show ?case unfolding p using Cons.IH [OF distinct_update [OF Cons.prems]] by simp
qed


lemma assign_clusters_values:
  "snd ` set (assign_clusters ps asg) \<subseteq> snd ` set asg \<union> {l \<in> snd ` set ps. l \<ge> 0}"
proof (induction ps arbitrary: asg)
  case Nil
  show ?case by simp
next
  case (Cons p ps)
  obtain a l where p: "p = (a, l)" by (cases p)
  show ?case
  proof (cases "l \<ge> 0")
    case True
    have "snd ` set (AList.update a l asg) \<subseteq> insert l (snd ` set asg)"
      using set_update_subset [of a l asg] by force
    with Cons.IH [of "AList.update a l asg"] True p show ?thesis by auto
  next
    case False
    with Cons.IH [of asg] p show ?thesis by auto
  qed
qed




lemma generate_cluster_labels_keys:
  assumes "generate_cluster_labels ext arts labels = Inr d"
  shows "fst ` set d = {l \<in> set labels. l \<ge> 0} \<and> distinct (map fst d)"
proof -
  from assms obtain cs where g: "group_by_cluster arts 0 labels [] = Inr cs"
    and d: "d = label_clusters ext cs []"
    by (auto simp: generate_cluster_labels_def split: sum.splits)
  from group_by_cluster_keys [OF g] have "fst ` set cs = {l \<in> set labels. l \<ge> 0}" by simp
  then show ?thesis
    unfolding d by (simp add: label_clusters_keys label_clusters_distinct)
qed

lemma insert_clusters_int64:
  assumes "insert_clusters (numpy_int64_ids flt) ls db = Inr db'"
  shows "ls = []"
proof (cases ls)
  case Nil
  then show ?thesis .
next
  case (Cons p rest)
  obtain c l where "p = (c, l)" by (cases p)
  with assms Cons show ?thesis
    by (simp add: execute_def numpy_int64_ids_def split: option.splits)
qed

lemma update_clusters_int64_success:
  assumes "update_clusters (numpy_int64_ids flt) db asg ls = (Inr u, db')"
  shows "ls = []"
proof -
  from assms have "with_connection (numpy_int64_ids flt) db
      (update_clusters_body (numpy_int64_ids flt) asg ls) = (Inr u, db')"
    by (simp add: update_clusters_def)
  from with_connection_cases [OF this]
  have "update_clusters_body (numpy_int64_ids flt) asg ls db = Inr db'" by simp
  then obtain d where "insert_clusters (numpy_int64_ids flt) ls d = Inr d"
    by (auto simp: update_clusters_body_def split: sum.splits dest: insert_clusters_int64)
  then show ?thesis by (rule insert_clusters_int64)
qed

lemma run_clustering_unfold:
  assumes "MIN_CLUSTER_SIZE \<le> length (get_all_embeddings db)"
  shows "run_clustering ext flt db =
      (case generate_cluster_labels ext (get_all_embeddings db)
              (cluster_articles ext (map ad_vector (get_all_embeddings db))) of
         Inl e \<Rightarrow> (Inl e, db)
       | Inr d \<Rightarrow>
           (case update_clusters (numpy_int64_ids flt) db
                   (assign_clusters (zip (map ad_article_id (get_all_embeddings db))
                      (cluster_articles ext (map ad_vector (get_all_embeddings db)))) []) d of
              (Inl e, db') \<Rightarrow> (Inl e, db')
            | (Inr u, db') \<Rightarrow> (Inr (length d), db')))"
proof -
  from assms have "get_all_embeddings db \<noteq> []"
    and "\<not> length (get_all_embeddings db) < MIN_CLUSTER_SIZE"
    by (auto simp: MIN_CLUSTER_SIZE_def)
  then show ?thesis
    unfolding run_clustering_def Let_def by simp
qed

lemma run_clustering_success:
  assumes run: "run_clustering ext flt db = (Inr n, db')"
    and enough: "MIN_CLUSTER_SIZE \<le> length (get_all_embeddings db)"
  obtains d asg where
    "generate_cluster_labels ext (get_all_embeddings db)
       (cluster_articles ext (map ad_vector (get_all_embeddings db))) = Inr d"
    and "asg = assign_clusters (zip (map ad_article_id (get_all_embeddings db))
           (cluster_articles ext (map ad_vector (get_all_embeddings db)))) []"
    and "update_clusters (numpy_int64_ids flt) db asg d = (Inr (), db')"
    and "n = length d"
proof -
  define labels where "labels = cluster_articles ext (map ad_vector (get_all_embeddings db))"
  define asg where
    "asg = assign_clusters (zip (map ad_article_id (get_all_embeddings db)) labels) []"
  from run run_clustering_unfold [OF enough, of ext flt] obtain d where
    gen: "generate_cluster_labels ext (get_all_embeddings db) labels = Inr d"
    and upd: "(case update_clusters (numpy_int64_ids flt) db asg d of
              (Inl e, db') \<Rightarrow> (Inl e, db')
            | (Inr u, db') \<Rightarrow> (Inr (length d), db')) = (Inr n, db')"
    unfolding labels_def asg_def
    by (cases "generate_cluster_labels ext (get_all_embeddings db)
          (cluster_articles ext (map ad_vector (get_all_embeddings db)))") auto
  obtain r d2 where u: "update_clusters (numpy_int64_ids flt) db asg d = (r, d2)"
    by (cases "update_clusters (numpy_int64_ids flt) db asg d")
  with upd have "r = Inr ()" and "d2 = db'" and "n = length d"
    by (cases r; simp)+
  with u gen that [of d asg] show ?thesis
    unfolding labels_def asg_def by simp
qed

lemma assigned_labels_have_rows:
  assumes "generate_cluster_labels ext arts labels = Inr d"
  shows "snd ` set (assign_clusters (zip ids labels) []) \<subseteq> fst ` set d"
proof -
  have "snd ` set (zip ids labels) \<subseteq> set labels"
    by (auto dest: set_zip_rightD)
  with assign_clusters_values [of "zip ids labels" "[]"]
  have "snd ` set (assign_clusters (zip ids labels) []) \<subseteq> {l \<in> set labels. l \<ge> 0}"
    by auto
  with generate_cluster_labels_keys [OF assms] show ?thesis by simp
qed

text \<open>
  A run that reaches \<open>update_clusters\<close> succeeds only when the clusterer found no
  cluster: with a cluster, the first \<open>INSERT INTO clusters\<close> raises and the transaction
  is rolled back. So a successful run leaves both tables empty.
\<close>

lemma run_clustering_success_no_cluster:
  assumes run: "run_clustering ext flt db = (Inr n, db')"
    and enough: "MIN_CLUSTER_SIZE \<le> length (get_all_embeddings db)"
  shows "n = 0 \<and> db' = db\<lparr>clusters := [], cluster_members := []\<rparr>"
proof -
  from run enough obtain d asg where
    gen: "generate_cluster_labels ext (get_all_embeddings db)
       (cluster_articles ext (map ad_vector (get_all_embeddings db))) = Inr d"
    and asg: "asg = assign_clusters (zip (map ad_article_id (get_all_embeddings db))
           (cluster_articles ext (map ad_vector (get_all_embeddings db)))) []"
    and upd: "update_clusters (numpy_int64_ids flt) db asg d = (Inr (), db')"
    and n: "n = length d"
    by (rule run_clustering_success)
  from update_clusters_int64_success [OF upd] have d: "d = []" .
  from assigned_labels_have_rows [OF gen] d have "set asg = {}"
    unfolding asg by simp
  then have "asg = []" by simp
  with upd d have "db' = db\<lparr>clusters := [], cluster_members := []\<rparr>"
    by (elim update_clusters_cases) simp_all
  with n d show ?thesis by simp
qed


lemma three_embedded_data:
  "get_all_embeddings three_embedded_db =
     [\<lparr>ad_article_id = 2, ad_vector = 12, ad_title = ''AI bill passes Senate'', ad_text = None,
        ad_published_at = Some 30\<rparr>,
      \<lparr>ad_article_id = 3, ad_vector = 13, ad_title = ''AI bill clears Senate'', ad_text = None,
        ad_published_at = Some 20\<rparr>,
      \<lparr>ad_article_id = 1, ad_vector = 11, ad_title = ''Senate passes AI bill'', ad_text = None,
        ad_published_at = Some 10\<rparr>]"
  by (simp add: get_all_embeddings_def three_embedded_db_def)

lemma three_embedded_enough:
  "MIN_CLUSTER_SIZE \<le> length (get_all_embeddings three_embedded_db)"
  unfolding three_embedded_data by (simp add: MIN_CLUSTER_SIZE_def)

lemma fallback_label_examples:
  "fallback_label 0 = ''Cluster 0''" "fallback_label 1 = ''Cluster 1''"
  "fallback_label 2 = ''Cluster 2''" "fallback_label 12 = ''Cluster 12''"
  by code_simp+

lemma three_embedded_labels:
  "generate_cluster_labels demo_ext (get_all_embeddings three_embedded_db) [0, 0, 0]
     = Inr [(0, ''Cluster 0'')]"
  unfolding three_embedded_data
  by (simp add: generate_cluster_labels_def append_member_def cluster_label_def tfidf_label_def
      cluster_texts_def demo_ext_def fallback_label_examples)

text \<open>
  With one cluster of three articles the run fails at the cluster row and the old
  cluster and its member stay.
\<close>

lemma three_embedded_run_fails:
  "run_clustering demo_ext no_faults three_embedded_db = (Inl IntegrityError, three_embedded_db)"
proof -
  have c: "cluster_articles demo_ext (map ad_vector (get_all_embeddings three_embedded_db))
      = [0, 0, 0]"
    unfolding three_embedded_data
    by (simp add: cluster_articles_def MIN_CLUSTER_SIZE_def demo_ext_def)
  have u: "update_clusters (numpy_int64_ids no_faults) three_embedded_db asg [(0, ''Cluster 0'')]
     = (Inl IntegrityError, three_embedded_db)" for asg
    by (simp add: update_clusters_def with_connection_def update_clusters_body_def execute_def
        no_faults_def numpy_int64_ids_def)
  show ?thesis
    unfolding run_clustering_unfold [OF three_embedded_enough] c three_embedded_labels
    by (simp add: u)
qed



section \<open>The label generator\<close>

lemma lookup_append_member:
  "lookup_members (append_member l a cs) c
     = (if c = l then lookup_members cs l @ [a] else lookup_members cs c)"
  by (simp add: lookup_members_def append_member_def update_conv')

lemma group_by_cluster_total:
  "i + length labels \<le> length arts \<Longrightarrow> \<exists>cs'. group_by_cluster arts i labels cs = Inr cs'"
proof (induction labels arbitrary: i cs)
  case Nil
  show ?case by simp
next
  case (Cons l labels)
  from Cons.prems have i: "i < length arts" and r: "Suc i + length labels \<le> length arts"
    by simp_all
  from Cons.IH [OF r] i show ?case by simp
qed

lemma group_by_cluster_members:
  "group_by_cluster arts i labels cs = Inr cs' \<Longrightarrow> i + length labels \<le> length arts \<Longrightarrow>
     lookup_members cs' c = lookup_members cs c
        @ map fst (filter (\<lambda>p. snd p = c \<and> snd p \<ge> 0) (zip (drop i arts) labels))"
proof (induction labels arbitrary: i cs)
  case Nil
  then show ?case by simp
next
  case (Cons l labels)
  from Cons.prems(2) have i: "i < length arts" and r: "Suc i + length labels \<le> length arts"
    by simp_all
  from i have d: "drop i arts = arts ! i # drop (Suc i) arts"
    by (simp add: Cons_nth_drop_Suc)
  show ?case
  proof (cases "l \<ge> 0")
    case True
    with Cons.prems(1) i have g: "group_by_cluster arts (Suc i) labels
        (append_member l (arts ! i) cs) = Inr cs'" by simp
    from Cons.IH [OF g r] True show ?thesis
      unfolding d by (simp add: lookup_append_member)
  next
    case False
    with Cons.prems(1) have g: "group_by_cluster arts (Suc i) labels cs = Inr cs'" by simp
    from Cons.IH [OF g r] False show ?thesis
      unfolding d by auto
  qed
qed

lemma label_clusters_map_of:
  "distinct (map fst cs) \<Longrightarrow>
     map_of (label_clusters ext cs d) c =
       (case map_of cs c of
          Some ms \<Rightarrow> Some (cluster_label ext c (cluster_texts ms))
        | None \<Rightarrow> map_of d c)"
proof (induction cs arbitrary: d)
  case Nil
  show ?case by simp
next
  case (Cons p cs)
  obtain k ms where p: "p = (k, ms)" by (cases p)
  from Cons.prems p have dk: "k \<notin> fst ` set cs" and dc: "distinct (map fst cs)" by auto
  from dk have nk: "map_of cs k = None" by (simp add: map_of_eq_None_iff)
  show ?case
    unfolding p using Cons.IH [OF dc] nk
    by (simp add: update_conv' split: option.splits)
qed

lemma top_terms_no_positive:
  "\<forall>(t, w) \<in> set feats. w \<le> 0 \<Longrightarrow> top_terms feats idx = Inr ts \<Longrightarrow> ts = []"
proof (induction idx arbitrary: ts)
  case Nil
  then show ?case by simp
next
  case (Cons i idx)
  from Cons.prems(2) have i: "i < length feats"
    by (simp split: if_splits)
  with Cons.prems(2) obtain ts' where t: "top_terms feats idx = Inr ts'"
    and ts: "ts = (if snd (feats ! i) > 0 then fst (feats ! i) # ts' else ts')"
    by (auto split: sum.splits)
  from i have "feats ! i \<in> set feats" by simp
  with Cons.prems(1) have "\<not> snd (feats ! i) > 0" by (cases "feats ! i") auto
  with ts Cons.IH [OF Cons.prems(1) t] show ?case by simp
qed

lemma cluster_label_fit_error:
  "fit_transform ext texts = Inl e \<Longrightarrow> cluster_label ext c texts = fallback_label c"
  by (simp add: cluster_label_def tfidf_label_def)

lemma cluster_label_no_positive:
  assumes "fit_transform ext texts = Inr feats" and "\<forall>(t, w) \<in> set feats. w \<le> 0"
  shows "cluster_label ext c texts = fallback_label c"
proof -
  let ?top = "rev (drop (length (argsort ext (map snd feats)) - 5) (argsort ext (map snd feats)))"
  show ?thesis
  proof (cases "top_terms feats ?top")
    case (Inl e)
    with assms(1) show ?thesis by (simp add: cluster_label_def tfidf_label_def Let_def)
  next
    case (Inr ts)
    from top_terms_no_positive [OF assms(2) Inr] have "ts = []" .
    with Inr assms(1) show ?thesis by (simp add: cluster_label_def tfidf_label_def Let_def)
  qed
qed

text \<open>
  Claim C6. Given one label per article, \<open>generate_cluster_labels\<close> never raises:
  it returns a label for exactly the clusters that are not noise. The label of a
  cluster is computed from the texts of its own members only, so what happens for one
  cluster has no effect on another. When the term model fails to fit on a cluster's
  texts, or fits but gives no term a weight above zero, the label is \<open>Cluster\<close>
  followed by the cluster id.
\<close>

theorem generate_cluster_labels_fallback:
  assumes len: "length labels \<le> length arts"
  shows "\<exists>d. generate_cluster_labels ext arts labels = Inr d
     \<and> fst ` set d = {l \<in> set labels. l \<ge> 0}
     \<and> (\<forall>c \<in> fst ` set d.
          map_of d c = Some (cluster_label ext c (cluster_texts (members_of arts labels c)))
        \<and> ((\<exists>e. fit_transform ext (cluster_texts (members_of arts labels c)) = Inl e) \<longrightarrow>
             map_of d c = Some (''Cluster '' @ str_int c))
        \<and> (\<forall>feats. fit_transform ext (cluster_texts (members_of arts labels c)) = Inr feats \<longrightarrow>
             (\<forall>(t, w) \<in> set feats. w \<le> 0) \<longrightarrow> map_of d c = Some (''Cluster '' @ str_int c)))"
proof -
  from len have l0: "0 + length labels \<le> length arts" by simp
  from group_by_cluster_total [OF l0, of "[]"] obtain cs where
    g: "group_by_cluster arts 0 labels [] = Inr cs" by blast
  define d where "d = label_clusters ext cs []"
  have gen: "generate_cluster_labels ext arts labels = Inr d"
    by (simp add: generate_cluster_labels_def g d_def)
  from generate_cluster_labels_keys [OF gen]
  have keys: "fst ` set d = {l \<in> set labels. l \<ge> 0}" by simp
  from group_by_cluster_keys [OF g] have ck: "fst ` set cs = {l \<in> set labels. l \<ge> 0}" by simp
  from group_by_cluster_distinct [OF g] have dc: "distinct (map fst cs)" by simp
  have lab: "map_of d c = Some (cluster_label ext c (cluster_texts (members_of arts labels c)))"
    if c: "c \<in> fst ` set d" for c
  proof -
    from c keys have c0: "c \<ge> 0" by simp
    from c keys ck have "c \<in> fst ` set cs" by simp
    then obtain ms where ms: "map_of cs c = Some ms"
      by (metis map_of_eq_None_iff not_Some_eq)
    then have "lookup_members cs c = ms" by (simp add: lookup_members_def)
    with group_by_cluster_members [OF g l0, of c]
    have "ms = map fst (filter (\<lambda>p. snd p = c \<and> snd p \<ge> 0) (zip arts labels))"
      by (simp add: lookup_members_def)
    also have "\<dots> = members_of arts labels c"
      unfolding members_of_def using c0
      by (intro arg_cong [where f = "map fst"] filter_cong) auto
    finally have "ms = members_of arts labels c" .
    with label_clusters_map_of [OF dc, of ext "[]" c] ms show ?thesis
      by (simp add: d_def)
  qed
  have "map_of d c = Some (cluster_label ext c (cluster_texts (members_of arts labels c)))
        \<and> ((\<exists>e. fit_transform ext (cluster_texts (members_of arts labels c)) = Inl e) \<longrightarrow>
             map_of d c = Some (''Cluster '' @ str_int c))
        \<and> (\<forall>feats. fit_transform ext (cluster_texts (members_of arts labels c)) = Inr feats \<longrightarrow>
             (\<forall>(t, w) \<in> set feats. w \<le> 0) \<longrightarrow> map_of d c = Some (''Cluster '' @ str_int c))"
    if c: "c \<in> fst ` set d" for c
    using lab [OF c] cluster_label_fit_error [of ext "cluster_texts (members_of arts labels c)" _ c]
      cluster_label_no_positive [of ext "cluster_texts (members_of arts labels c)" _ c]
    by (auto simp: fallback_label_def)
  with gen keys show ?thesis by blast
qed


lemma label_articles_texts:
  "cluster_texts [label_row 1 ''AI bill passes'', label_row 4 ''Senate: AI bill'']
     = [''ai bill passes'', ''senate ai bill'']"
  "cluster_texts [label_row 2 ''Storm hits coast''] = [''storm hits coast'']"
  "cluster_texts [label_row 5 ''Zero''] = [''zero'']"
  by code_simp+

lemma label_articles_groups:
  "group_by_cluster label_articles 0 [0, 1, - 1, 0, 2] []
     = Inr [(0, [label_row 1 ''AI bill passes'', label_row 4 ''Senate: AI bill'']),
            (1, [label_row 2 ''Storm hits coast'']), (2, [label_row 5 ''Zero''])]"
  by (simp add: label_articles_def append_member_def)

lemma label_ext_labels:
  "cluster_label label_ext 0 [''ai bill passes'', ''senate ai bill''] = ''ai bill''"
  "cluster_label label_ext 1 [''storm hits coast''] = ''Cluster 1''"
  "cluster_label label_ext 2 [''zero''] = ''Cluster 2''"
  by (simp_all add: cluster_label_def tfidf_label_def label_ext_def fallback_label_examples
      replace_underscores_def)

lemma label_articles_labels:
  "generate_cluster_labels label_ext label_articles [0, 1, - 1, 0, 2]
     = Inr [(0, ''ai bill''), (1, ''Cluster 1''), (2, ''Cluster 2'')]"
  unfolding generate_cluster_labels_def label_articles_groups
  by (simp add: label_articles_texts label_ext_labels del: One_nat_def)

theorem generate_cluster_labels_fallback_witness:
  "generate_cluster_labels label_ext label_articles [0, 1, - 1, 0, 2]
     = Inr [(0, ''ai bill''), (1, ''Cluster 1''), (2, ''Cluster 2'')]
   \<and> fit_transform label_ext (cluster_texts (members_of label_articles [0, 1, - 1, 0, 2] 1))
       = Inl ValueError
   \<and> map_of [(0, ''ai bill''), (1, ''Cluster 1''), (2, ''Cluster 2'')] (1 :: int)
       = Some (''Cluster '' @ str_int 1)"
proof -
  have len: "length [0, 1, - 1, 0, 2 :: int] \<le> length label_articles"
    by (simp add: label_articles_def)
  have m: "members_of label_articles [0, 1, - 1, 0, 2] 1 = [label_row 2 ''Storm hits coast'']"
    by (simp add: members_of_def label_articles_def)
  have f: "fit_transform label_ext (cluster_texts (members_of label_articles [0, 1, - 1, 0, 2] 1))
       = Inl ValueError"
    unfolding m label_articles_texts by (simp add: label_ext_def)
  from generate_cluster_labels_fallback [OF len, of label_ext] obtain d where
    d: "generate_cluster_labels label_ext label_articles [0, 1, - 1, 0, 2] = Inr d"
    and fb: "\<forall>c \<in> fst ` set d.
          map_of d c = Some (cluster_label label_ext c
             (cluster_texts (members_of label_articles [0, 1, - 1, 0, 2] c)))
        \<and> ((\<exists>e. fit_transform label_ext
               (cluster_texts (members_of label_articles [0, 1, - 1, 0, 2] c)) = Inl e) \<longrightarrow>
             map_of d c = Some (''Cluster '' @ str_int c))
        \<and> (\<forall>feats. fit_transform label_ext
               (cluster_texts (members_of label_articles [0, 1, - 1, 0, 2] c)) = Inr feats \<longrightarrow>
             (\<forall>(t, w) \<in> set feats. w \<le> 0) \<longrightarrow> map_of d c = Some (''Cluster '' @ str_int c))"
    by blast
  from d label_articles_labels
  have de: "d = [(0, ''ai bill''), (1, ''Cluster 1''), (2, ''Cluster 2'')]" by simp
  then have "1 \<in> fst ` set d" by simp
  from bspec [OF fb this] f have "map_of d 1 = Some (''Cluster '' @ str_int 1)" by blast
  with label_articles_labels f show ?thesis unfolding de by blast
qed


end
